theory Spec2Isabelle
  imports Complex_Main "HOL-Library.Multiset" "HOL-Library.Sublist"
begin

section \<open>Schema (shared/schema.ts)\<close>

text \<open>
  The two relations of the notes application. Rows are records carrying the columns of
  the \<^verbatim>\<open>sqliteTable\<close> declarations; \<^verbatim>\<open>users.id\<close> and \<^verbatim>\<open>notes.id\<close> are the fields
  \<open>users_id\<close> and \<open>notes_id\<close>. Numbers are the integers the application works with (row
  identifiers, page numbers and limits, epoch milliseconds), in the range where JavaScript
  computes with them exactly; a \<^verbatim>\<open>Date\<close> is its epoch-millisecond value.
\<close>

record User =
  users_id :: int
  username :: string
  password :: string

record Note =
  notes_id :: int
  title :: string
  content :: string
  isImportant :: bool
  userId :: int
  createdAt :: int

text \<open>\<^verbatim>\<open>InsertUser\<close> and \<^verbatim>\<open>InsertNote\<close>: the picked columns of the insert schemas.
  \<^verbatim>\<open>isImportant\<close> has a column default and may be omitted.\<close>

record InsertUser =
  ins_username :: string
  ins_password :: string

record InsertNote =
  ins_title :: string
  ins_content :: string
  ins_isImportant :: "bool option"
  ins_userId :: int

text \<open>\<^verbatim>\<open>Partial<Omit<InsertUser, 'id'>>\<close> and \<^verbatim>\<open>Partial<Omit<InsertNote, 'id'>>\<close>:
  every field may be absent.\<close>

record UserPatch =
  set_username :: "string option"
  set_password :: "string option"

record NotePatch =
  set_title :: "string option"
  set_content :: "string option"
  set_isImportant :: "bool option"
  set_userId :: "int option"

section \<open>The relational engine behind a connection\<close>

text \<open>
  One \<^verbatim>\<open>new Database(':memory:')\<close> connection after the \<^verbatim>\<open>CREATE TABLE IF NOT EXISTS\<close>
  script: the rows of both tables in rowid order, the \<^verbatim>\<open>AUTOINCREMENT\<close> counters of
  \<^verbatim>\<open>sqlite_sequence\<close>, and the connection's last inserted rowid. The constraints of the
  script are enforced by the statements below: \<^verbatim>\<open>username TEXT NOT NULL UNIQUE\<close> and
  \<^verbatim>\<open>FOREIGN KEY (user_id) REFERENCES users(id) ON DELETE CASCADE\<close> (the driver opens
  connections with foreign keys enabled).
\<close>

record sqlite_db =
  users_rows :: "User list"
  notes_rows :: "Note list"
  users_seq :: int
  notes_seq :: int
  last_insert_rowid :: int

datatype sqlite_code =
    SQLITE_CONSTRAINT_UNIQUE
  | SQLITE_CONSTRAINT_FOREIGNKEY
  | SQLITE_MISMATCH
  | SQLITE_ERROR

text \<open>What a promise can be rejected with: the driver's \<^verbatim>\<open>SqliteError\<close> (code and
  message), a plain \<^verbatim>\<open>Error\<close>, and the class \<^verbatim>\<open>UniqueConstraintError(field)\<close> of the
  error-handling text shown by \<^verbatim>\<open>client/src/pages/Home.tsx\<close>, which only the
  \<^verbatim>\<open>tryCatch\<close> wrapper of that text constructs.\<close>

datatype error =
    SqliteError sqlite_code string
  | JsError string
  | UniqueConstraintError string

text \<open>The field an error is tagged with; only \<^verbatim>\<open>UniqueConstraintError\<close> carries one.\<close>

fun field_tag :: "error \<Rightarrow> string option" where
  "field_tag (UniqueConstraintError field) = Some field"
| "field_tag (SqliteError code message) = None"
| "field_tag (JsError message) = None"

text \<open>\<^verbatim>\<open>{ changes, lastInsertRowid }\<close>, what a statement without \<^verbatim>\<open>.returning()\<close> resolves to.\<close>

record RunResult =
  changes :: nat
  lastInsertRowid :: int

definition new_Database :: sqlite_db where
  "new_Database =
     \<lparr>users_rows = [], notes_rows = [], users_seq = 0, notes_seq = 0, last_insert_rowid = 0\<rparr>"

text \<open>\<^verbatim>\<open>INTEGER PRIMARY KEY AUTOINCREMENT\<close>: one more than the largest rowid the table
  holds or has ever held.\<close>

definition autoincrement :: "int \<Rightarrow> int list \<Rightarrow> int" where
  "autoincrement seq ids = fold max ids seq + 1"

definition unique_failed_users_username :: error where
  "unique_failed_users_username =
     SqliteError SQLITE_CONSTRAINT_UNIQUE ''UNIQUE constraint failed: users.username''"

definition foreign_key_failed :: error where
  "foreign_key_failed = SqliteError SQLITE_CONSTRAINT_FOREIGNKEY ''FOREIGN KEY constraint failed''"

definition datatype_mismatch :: error where
  "datatype_mismatch = SqliteError SQLITE_MISMATCH ''datatype mismatch''"

definition syntax_error_near_offset :: error where
  \<open>syntax_error_near_offset = SqliteError SQLITE_ERROR ''near "offset": syntax error''\<close>

definition like_too_complex :: error where
  "like_too_complex = SqliteError SQLITE_ERROR ''LIKE or GLOB pattern too complex''"

text \<open>\<^verbatim>\<open>db.insert(users).values(user).returning()\<close>\<close>

definition insert_users :: "InsertUser \<Rightarrow> sqlite_db \<Rightarrow> (error + User list) \<times> sqlite_db" where
  "insert_users v d =
     (if \<exists>u \<in> set (users_rows d). username u = ins_username v
      then (Inl unique_failed_users_username, d)
      else
        let i = autoincrement (users_seq d) (map users_id (users_rows d));
            r = \<lparr>users_id = i, username = ins_username v, password = ins_password v\<rparr>
        in (Inr [r],
            d\<lparr>users_rows := users_rows d @ [r], users_seq := i, last_insert_rowid := i\<rparr>))"

text \<open>\<^verbatim>\<open>db.insert(notes).values({...note, createdAt}).returning()\<close>. The timestamp column
  stores whole seconds (\<^verbatim>\<open>Math.floor(getTime() / 1000)\<close>) and reads back as
  \<^verbatim>\<open>new Date(seconds * 1000)\<close>. With a returning clause the foreign key is checked when
  the statement ends: a rejected insert is undone, table and counter, but the connection's
  last inserted rowid has moved.\<close>

definition insert_notes :: "InsertNote \<Rightarrow> int \<Rightarrow> sqlite_db \<Rightarrow> (error + Note list) \<times> sqlite_db" where
  "insert_notes v date d =
     (let i = autoincrement (notes_seq d) (map notes_id (notes_rows d));
          r = \<lparr>notes_id = i, title = ins_title v, content = ins_content v,
               isImportant = (case ins_isImportant v of None \<Rightarrow> False | Some b \<Rightarrow> b),
               userId = ins_userId v, createdAt = (date div 1000) * 1000\<rparr>
      in if \<not> (\<exists>u \<in> set (users_rows d). users_id u = ins_userId v)
         then (Inl foreign_key_failed, d\<lparr>last_insert_rowid := i\<rparr>)
         else (Inr [r],
               d\<lparr>notes_rows := notes_rows d @ [r], notes_seq := i, last_insert_rowid := i\<rparr>))"

text \<open>\<^verbatim>\<open>.set(data)\<close>: each present field overwrites its column.\<close>

definition apply_UserPatch :: "UserPatch \<Rightarrow> User \<Rightarrow> User" where
  "apply_UserPatch data u =
     u\<lparr>username := (case set_username data of None \<Rightarrow> username u | Some s \<Rightarrow> s),
       password := (case set_password data of None \<Rightarrow> password u | Some s \<Rightarrow> s)\<rparr>"

definition apply_NotePatch :: "NotePatch \<Rightarrow> Note \<Rightarrow> Note" where
  "apply_NotePatch data n =
     n\<lparr>title := (case set_title data of None \<Rightarrow> title n | Some s \<Rightarrow> s),
       content := (case set_content data of None \<Rightarrow> content n | Some s \<Rightarrow> s),
       isImportant := (case set_isImportant data of None \<Rightarrow> isImportant n | Some b \<Rightarrow> b),
       userId := (case set_userId data of None \<Rightarrow> userId n | Some i \<Rightarrow> i)\<rparr>"

definition no_values_to_set :: error where
  "no_values_to_set = JsError ''No values to set''"

text \<open>\<^verbatim>\<open>db.update(users).set(data).where(eq(users.id, id)).returning()\<close>\<close>

definition update_users_by_id :: "int \<Rightarrow> UserPatch \<Rightarrow> sqlite_db \<Rightarrow> (error + User list) \<times> sqlite_db" where
  "update_users_by_id i data d =
     (if set_username data = None \<and> set_password data = None
      then (Inl no_values_to_set, d)
      else if (\<exists>u \<in> set (users_rows d). users_id u = i)
              \<and> (\<exists>u \<in> set (users_rows d). users_id u \<noteq> i \<and> Some (username u) = set_username data)
      then (Inl unique_failed_users_username, d)
      else
        let rows' = map (\<lambda>u. if users_id u = i then apply_UserPatch data u else u) (users_rows d)
        in (Inr (filter (\<lambda>u. users_id u = i) rows'), d\<lparr>users_rows := rows'\<rparr>))"

text \<open>\<^verbatim>\<open>db.update(notes).set(data).where(eq(notes.id, id)).returning()\<close>\<close>

definition update_notes_by_id :: "int \<Rightarrow> NotePatch \<Rightarrow> sqlite_db \<Rightarrow> (error + Note list) \<times> sqlite_db" where
  "update_notes_by_id i data d =
     (if set_title data = None \<and> set_content data = None
          \<and> set_isImportant data = None \<and> set_userId data = None
      then (Inl no_values_to_set, d)
      else if (\<exists>n \<in> set (notes_rows d). notes_id n = i)
              \<and> set_userId data \<noteq> None
              \<and> \<not> (\<exists>u \<in> set (users_rows d). Some (users_id u) = set_userId data)
      then (Inl foreign_key_failed, d)
      else
        let rows' = map (\<lambda>n. if notes_id n = i then apply_NotePatch data n else n) (notes_rows d)
        in (Inr (filter (\<lambda>n. notes_id n = i) rows'), d\<lparr>notes_rows := rows'\<rparr>))"

text \<open>\<^verbatim>\<open>db.delete(users).where(eq(users.id, id)).returning()\<close>: the deleted parent rows
  take their notes with them (\<^verbatim>\<open>ON DELETE CASCADE\<close>).\<close>

definition delete_users_by_id :: "int \<Rightarrow> sqlite_db \<Rightarrow> User list \<times> sqlite_db" where
  "delete_users_by_id i d =
     (let gone = filter (\<lambda>u. users_id u = i) (users_rows d)
      in (gone,
          d\<lparr>users_rows := filter (\<lambda>u. users_id u \<noteq> i) (users_rows d),
            notes_rows := filter (\<lambda>n. userId n \<notin> users_id ` set gone) (notes_rows d)\<rparr>))"

text \<open>\<^verbatim>\<open>db.delete(notes).where(eq(notes.id, id)).returning()\<close>\<close>

definition delete_notes_by_id :: "int \<Rightarrow> sqlite_db \<Rightarrow> Note list \<times> sqlite_db" where
  "delete_notes_by_id i d =
     (filter (\<lambda>n. notes_id n = i) (notes_rows d),
      d\<lparr>notes_rows := filter (\<lambda>n. notes_id n \<noteq> i) (notes_rows d)\<rparr>)"

text \<open>\<^verbatim>\<open>db.delete(notes).where(eq(notes.userId, userId))\<close>, run without \<^verbatim>\<open>.returning()\<close>\<close>

definition delete_notes_by_userId :: "int \<Rightarrow> sqlite_db \<Rightarrow> RunResult \<times> sqlite_db" where
  "delete_notes_by_userId i d =
     (\<lparr>changes = length (filter (\<lambda>n. userId n = i) (notes_rows d)),
       lastInsertRowid = last_insert_rowid d\<rparr>,
      d\<lparr>notes_rows := filter (\<lambda>n. userId n \<noteq> i) (notes_rows d)\<rparr>)"

section \<open>Query building blocks\<close>

text \<open>\<^verbatim>\<open>result[0] || null\<close> on an array of rows (a row object is never falsy).\<close>

definition first_or_null :: "'a list \<Rightarrow> 'a option" where
  "first_or_null result = (case result of [] \<Rightarrow> None | r # _ \<Rightarrow> Some r)"

text \<open>\<^verbatim>\<open>result[0]\<close>: \<^verbatim>\<open>undefined\<close> on an empty array.\<close>

definition index0 :: "'a list \<Rightarrow> 'a option" where
  "index0 result = (case result of [] \<Rightarrow> None | r # _ \<Rightarrow> Some r)"

text \<open>\<^verbatim>\<open>.orderBy(desc(notes.createdAt))\<close>: newest first; rows with equal timestamps keep
  their rowid order.\<close>

definition orderBy_desc :: "('a \<Rightarrow> int) \<Rightarrow> 'a list \<Rightarrow> 'a list" where
  "orderBy_desc col rows = sort_key (\<lambda>r. - col r) rows"

subsection \<open>JavaScript numbers\<close>

text \<open>An integer-valued JavaScript number is the integer it stands for. The result of
  \<^verbatim>\<open>-\<close> and \<^verbatim>\<open>*\<close> is the exact result rounded to the nearest number with a 53-bit
  significand, ties to the even one (integers below \<open>2 ^ 53\<close> are exact). A result too large
  for a double is \<^verbatim>\<open>Infinity\<close> in JavaScript; the engine treats it like any other value
  of \<open>2 ^ 63\<close> or more, so the rounded integer stands for it here.\<close>

fun bit_length :: "nat \<Rightarrow> nat" where
  "bit_length n = (if n = 0 then 0 else Suc (bit_length (n div 2)))"

declare bit_length.simps [simp del]

definition double_of_nat :: "nat \<Rightarrow> nat" where
  "double_of_nat a =
     (if bit_length a \<le> 53 then a
      else
        let q = 2 ^ (bit_length a - 53); m = a div q; r = a mod q
        in if 2 * r < q \<or> (2 * r = q \<and> even m) then m * q else (m + 1) * q)"

definition to_double :: "int \<Rightarrow> int" where
  "to_double x = (if x < 0 then - int (double_of_nat (nat (- x))) else int (double_of_nat (nat x)))"

definition js_minus :: "int \<Rightarrow> int \<Rightarrow> int" where
  "js_minus a b = to_double (a - b)"

definition js_times :: "int \<Rightarrow> int \<Rightarrow> int" where
  "js_times a b = to_double (a * b)"

subsection \<open>Limit and offset\<close>

text \<open>A number bound to \<^verbatim>\<open>LIMIT ?\<close> or \<^verbatim>\<open>OFFSET ?\<close> must convert to a 64-bit integer
  without loss, strictly between \<open>- 2 ^ 63\<close> and \<open>2 ^ 63\<close>; otherwise the statement fails
  with \<^verbatim>\<open>datatype mismatch\<close>.\<close>

definition lossless_int64 :: "int \<Rightarrow> bool" where
  "lossless_int64 x \<longleftrightarrow> - (2 ^ 63) < x \<and> x < 2 ^ 63"

text \<open>\<^verbatim>\<open>.limit(limit).offset(offset)\<close>: the query builder writes \<^verbatim>\<open>limit ?\<close> only for a
  limit \<open>\<ge> 0\<close> and \<^verbatim>\<open>offset ?\<close> only for an offset other than 0, and an offset without
  a limit is a syntax error of the engine. A negative offset skips nothing.\<close>

definition limit_offset :: "int \<Rightarrow> int \<Rightarrow> 'a list \<Rightarrow> error + 'a list" where
  "limit_offset n_limit n_offset rows =
     (if n_limit < 0
      then (if n_offset \<noteq> 0 then Inl syntax_error_near_offset else Inr rows)
      else if \<not> lossless_int64 n_limit \<or> \<not> lossless_int64 n_offset
      then Inl datatype_mismatch
      else Inr (take (nat n_limit) (drop (nat n_offset) rows)))"

subsection \<open>Pattern matching\<close>

text \<open>The engine's \<^verbatim>\<open>LIKE\<close>: \<^verbatim>\<open>%\<close> matches any run of characters, \<^verbatim>\<open>_\<close> any single
  character, every other character matches itself up to the case of ASCII letters (the
  engine folds case through a table over the 26 upper-case letters).\<close>

definition UpperToLower :: "(char \<times> char) list" where
  "UpperToLower = zip ''ABCDEFGHIJKLMNOPQRSTUVWXYZ'' ''abcdefghijklmnopqrstuvwxyz''"

definition sqlite_tolower :: "char \<Rightarrow> char" where
  "sqlite_tolower c = (case map_of UpperToLower c of None \<Rightarrow> c | Some l \<Rightarrow> l)"

fun like_match :: "string \<Rightarrow> string \<Rightarrow> bool" where
  "like_match [] [] = True"
| "like_match [] (c # s) = False"
| "like_match (p # ps) [] = (p = CHR ''%'' \<and> like_match ps [])"
| "like_match (p # ps) (c # s) =
     (if p = CHR ''%'' then like_match ps (c # s) \<or> like_match (p # ps) s
      else (p = CHR ''_'' \<or> sqlite_tolower p = sqlite_tolower c) \<and> like_match ps s)"

text \<open>The engine reads pattern and text as C strings, up to the first NUL character, and
  refuses a pattern of more than 50000 bytes. A character is one code point; those from
  128 on take two bytes in the engine's encoding.\<close>

definition c_string :: "string \<Rightarrow> string" where
  "c_string s = takeWhile (\<lambda>c. c \<noteq> CHR 0x00) s"

definition utf8_bytes :: "string \<Rightarrow> nat" where
  "utf8_bytes s = sum_list (map (\<lambda>c. if digit7 c then 2 else 1) s)"

text \<open>\<^verbatim>\<open>like(column, pattern)\<close>, evaluated on one row\<close>

definition like :: "string \<Rightarrow> string \<Rightarrow> error + bool" where
  "like col pattern =
     (if 50000 < utf8_bytes pattern then Inl like_too_complex
      else Inr (like_match (c_string pattern) (c_string col)))"

text \<open>\<^verbatim>\<open>and(...conditions)\<close> on one row, left to right, and the \<^verbatim>\<open>where\<close> clause over
  the rows of a table: the first error ends the statement.\<close>

fun and_conditions :: "('a \<Rightarrow> error + bool) list \<Rightarrow> 'a \<Rightarrow> error + bool" where
  "and_conditions [] r = Inr True"
| "and_conditions (c # cs) r =
     (case c r of Inl e \<Rightarrow> Inl e | Inr b \<Rightarrow> if b then and_conditions cs r else Inr False)"

fun where_clause :: "('a \<Rightarrow> error + bool) \<Rightarrow> 'a list \<Rightarrow> error + 'a list" where
  "where_clause c [] = Inr []"
| "where_clause c (r # rs) =
     (case c r of
        Inl e \<Rightarrow> Inl e
      | Inr b \<Rightarrow>
          (case where_clause c rs of
             Inl e \<Rightarrow> Inl e
           | Inr rs' \<Rightarrow> Inr (if b then r # rs' else rs')))"

subsection \<open>Page count\<close>

text \<open>A JavaScript number as \<^verbatim>\<open>Math.ceil(total / limit)\<close> can produce it; for a count
  below \<open>2 ^ 53\<close> the rounded quotient has the ceiling of the exact one.\<close>

datatype js_number = Finite int | Infinity | NegInfinity | NaN

definition Math_ceil_div :: "int \<Rightarrow> int \<Rightarrow> js_number" where
  "Math_ceil_div a b =
     (if b = 0 then (if a = 0 then NaN else if 0 < a then Infinity else NegInfinity)
      else Finite (- ((- a) div b)))"

section \<open>The process: two module-level connections\<close>

text \<open>
  \<^verbatim>\<open>server/db/index.ts\<close> opens one in-memory database and exports \<^verbatim>\<open>db\<close>; the
  data-access functions and the query helpers import that \<^verbatim>\<open>db\<close>.
  \<^verbatim>\<open>server/storage.ts\<close> opens an in-memory database of its own for the
  \<^verbatim>\<open>DrizzleStorage\<close> class. Every operation takes the process state and returns its
  result with the state after it; a rejected promise is an \<open>Inl\<close> result.
\<close>

record process =
  db_index :: sqlite_db
  db_storage :: sqlite_db

definition process_start :: process where
  "process_start = \<lparr>db_index = new_Database, db_storage = new_Database\<rparr>"

definition on_index :: "(sqlite_db \<Rightarrow> 'r \<times> sqlite_db) \<Rightarrow> process \<Rightarrow> 'r \<times> process" where
  "on_index stmt p = (case stmt (db_index p) of (r, d) \<Rightarrow> (r, p\<lparr>db_index := d\<rparr>))"

definition on_storage :: "(sqlite_db \<Rightarrow> 'r \<times> sqlite_db) \<Rightarrow> process \<Rightarrow> 'r \<times> process" where
  "on_storage stmt p = (case stmt (db_storage p) of (r, d) \<Rightarrow> (r, p\<lparr>db_storage := d\<rparr>))"

text \<open>What the caller does with the array a statement returned.\<close>

definition returning :: "('a list \<Rightarrow> 'b) \<Rightarrow> (error + 'a list) \<times> process \<Rightarrow> (error + 'b) \<times> process" where
  "returning f out = (case out of (Inl e, p) \<Rightarrow> (Inl e, p) | (Inr rows, p) \<Rightarrow> (Inr (f rows), p))"

section \<open>Data-access layer (server/db)\<close>

definition createUser :: "InsertUser \<Rightarrow> process \<Rightarrow> (error + User option) \<times> process" where
  "createUser v p = returning index0 (on_index (insert_users v) p)"

definition getUserById :: "int \<Rightarrow> process \<Rightarrow> User option \<times> process" where
  "getUserById i p =
     (first_or_null (filter (\<lambda>u. users_id u = i) (users_rows (db_index p))), p)"

definition getUserByUsername :: "string \<Rightarrow> process \<Rightarrow> User option \<times> process" where
  "getUserByUsername name p =
     (first_or_null (filter (\<lambda>u. username u = name) (users_rows (db_index p))), p)"

definition getAllUsers :: "process \<Rightarrow> User list \<times> process" where
  "getAllUsers p = (users_rows (db_index p), p)"

definition updateUser :: "int \<Rightarrow> UserPatch \<Rightarrow> process \<Rightarrow> (error + User option) \<times> process" where
  "updateUser i data p = returning first_or_null (on_index (update_users_by_id i data) p)"

definition deleteUser :: "int \<Rightarrow> process \<Rightarrow> User option \<times> process" where
  "deleteUser i p =
     (case on_index (delete_users_by_id i) p of (result, p') \<Rightarrow> (first_or_null result, p'))"

definition createNote :: "InsertNote \<Rightarrow> int \<Rightarrow> process \<Rightarrow> (error + Note option) \<times> process" where
  "createNote v new_Date p = returning index0 (on_index (insert_notes v new_Date) p)"

definition getNoteById :: "int \<Rightarrow> process \<Rightarrow> Note option \<times> process" where
  "getNoteById i p =
     (first_or_null (filter (\<lambda>n. notes_id n = i) (notes_rows (db_index p))), p)"

definition getAllNotes :: "process \<Rightarrow> Note list \<times> process" where
  "getAllNotes p = (notes_rows (db_index p), p)"

definition getNotesByUserId :: "int \<Rightarrow> process \<Rightarrow> Note list \<times> process" where
  "getNotesByUserId i p = (filter (\<lambda>n. userId n = i) (notes_rows (db_index p)), p)"

definition updateNote :: "int \<Rightarrow> NotePatch \<Rightarrow> process \<Rightarrow> (error + Note option) \<times> process" where
  "updateNote i data p = returning first_or_null (on_index (update_notes_by_id i data) p)"

definition deleteNote :: "int \<Rightarrow> process \<Rightarrow> Note option \<times> process" where
  "deleteNote i p =
     (case on_index (delete_notes_by_id i) p of (result, p') \<Rightarrow> (first_or_null result, p'))"

definition deleteUserNotes :: "int \<Rightarrow> process \<Rightarrow> RunResult \<times> process" where
  "deleteUserNotes i p = on_index (delete_notes_by_userId i) p"

section \<open>Query helpers (server/db)\<close>

text \<open>\<^verbatim>\<open>searchNotes(titleQuery, importantOnly)\<close>: the list of conditions, their conjunction
  as the \<^verbatim>\<open>where\<close> clause when there is one, newest first.\<close>

definition searchNotes :: "string \<Rightarrow> bool \<Rightarrow> process \<Rightarrow> (error + Note list) \<times> process" where
  "searchNotes titleQuery importantOnly p =
     (let conditions =
            (if titleQuery \<noteq> [] then [\<lambda>n. like (title n) (''%'' @ titleQuery @ ''%'')] else [])
            @ (if importantOnly then [\<lambda>n. Inr (isImportant n = True)] else []);
          query = (if length conditions > 0
                   then where_clause (and_conditions conditions) (notes_rows (db_index p))
                   else Inr (notes_rows (db_index p)))
      in (case query of
            Inl e \<Rightarrow> Inl e
          | Inr rows \<Rightarrow> Inr (orderBy_desc createdAt rows), p))"

record Pagination =
  page :: int
  limit :: int
  total :: int
  pages :: js_number

record PaginatedNotes =
  data :: "Note list"
  pagination :: Pagination

text \<open>\<^verbatim>\<open>getPaginatedNotes(page, limit)\<close>: the page query first, then the count, read back
  as a JavaScript number.\<close>

definition getPaginatedNotes :: "int \<Rightarrow> int \<Rightarrow> process \<Rightarrow> (error + PaginatedNotes) \<times> process" where
  "getPaginatedNotes n_page n_limit p =
     (let offset = js_times (js_minus n_page 1) n_limit
      in case limit_offset n_limit offset (orderBy_desc createdAt (notes_rows (db_index p))) of
           Inl e \<Rightarrow> (Inl e, p)
         | Inr paginatedNotes \<Rightarrow>
             let count = to_double (int (length (notes_rows (db_index p))))
             in (Inr \<lparr>data = paginatedNotes,
                      pagination = \<lparr>page = n_page, limit = n_limit, total = count,
                                    pages = Math_ceil_div count n_limit\<rparr>\<rparr>,
                 p))"

text \<open>The selected shape of \<^verbatim>\<open>getNotesWithUsers\<close>: five note columns, two user columns.\<close>

record NotePart =
  part_id :: int
  part_title :: string
  part_content :: string
  part_isImportant :: bool
  part_createdAt :: int

record UserPart =
  part_user_id :: int
  part_username :: string

record NoteWithUser =
  row_note :: NotePart
  row_user :: UserPart

definition innerJoin_notes_users :: "sqlite_db \<Rightarrow> (Note \<times> User) list" where
  "innerJoin_notes_users d =
     concat (map (\<lambda>n. map (\<lambda>u. (n, u)) (filter (\<lambda>u. userId n = users_id u) (users_rows d)))
                 (notes_rows d))"

definition select_note_user :: "Note \<times> User \<Rightarrow> NoteWithUser" where
  "select_note_user r =
     \<lparr>row_note = \<lparr>part_id = notes_id (fst r), part_title = title (fst r),
                    part_content = content (fst r), part_isImportant = isImportant (fst r),
                    part_createdAt = createdAt (fst r)\<rparr>,
       row_user = \<lparr>part_user_id = users_id (snd r), part_username = username (snd r)\<rparr>\<rparr>"

definition getNotesWithUsers :: "process \<Rightarrow> NoteWithUser list \<times> process" where
  "getNotesWithUsers p =
     (map select_note_user
        (orderBy_desc (\<lambda>r. createdAt (fst r)) (innerJoin_notes_users (db_index p))), p)"

record UserStats =
  totalNotes :: nat
  importantNotes :: nat

text \<open>The object \<^verbatim>\<open>getUserWithNotes\<close> returns; its \<^verbatim>\<open>notes\<close> property is the field
  \<open>userNotes\<close>.\<close>

record UserWithNotes =
  user :: User
  userNotes :: "Note list"
  stats :: UserStats

definition getUserWithNotes :: "int \<Rightarrow> process \<Rightarrow> UserWithNotes option \<times> process" where
  "getUserWithNotes i p =
     (case filter (\<lambda>u. users_id u = i) (users_rows (db_index p)) of
        [] \<Rightarrow> (None, p)
      | u # _ \<Rightarrow>
          let ns = filter (\<lambda>n. userId n = i) (notes_rows (db_index p));
              importantNotesCount = length (filter (\<lambda>n. isImportant n) ns)
          in (Some \<lparr>user = u, userNotes = ns,
                     stats = \<lparr>totalNotes = length ns,
                              importantNotes = importantNotesCount\<rparr>\<rparr>, p))"

section \<open>The DrizzleStorage class (server/storage.ts)\<close>

definition DrizzleStorage_getUserById :: "int \<Rightarrow> process \<Rightarrow> User option \<times> process" where
  "DrizzleStorage_getUserById i p =
     (index0 (filter (\<lambda>u. users_id u = i) (users_rows (db_storage p))), p)"

definition DrizzleStorage_getUserByUsername :: "string \<Rightarrow> process \<Rightarrow> User option \<times> process" where
  "DrizzleStorage_getUserByUsername name p =
     (index0 (filter (\<lambda>u. username u = name) (users_rows (db_storage p))), p)"

definition DrizzleStorage_getAllUsers :: "process \<Rightarrow> User list \<times> process" where
  "DrizzleStorage_getAllUsers p = (users_rows (db_storage p), p)"

definition DrizzleStorage_createUser :: "InsertUser \<Rightarrow> process \<Rightarrow> (error + User option) \<times> process" where
  "DrizzleStorage_createUser v p = returning index0 (on_storage (insert_users v) p)"

definition DrizzleStorage_getNoteById :: "int \<Rightarrow> process \<Rightarrow> Note option \<times> process" where
  "DrizzleStorage_getNoteById i p =
     (index0 (filter (\<lambda>n. notes_id n = i) (notes_rows (db_storage p))), p)"

definition DrizzleStorage_getAllNotes :: "process \<Rightarrow> Note list \<times> process" where
  "DrizzleStorage_getAllNotes p = (notes_rows (db_storage p), p)"

definition DrizzleStorage_getNotesByUserId :: "int \<Rightarrow> process \<Rightarrow> Note list \<times> process" where
  "DrizzleStorage_getNotesByUserId i p =
     (filter (\<lambda>n. userId n = i) (notes_rows (db_storage p)), p)"

definition DrizzleStorage_createNote :: "InsertNote \<Rightarrow> int \<Rightarrow> process \<Rightarrow> (error + Note option) \<times> process" where
  "DrizzleStorage_createNote v new_Date p =
     returning index0 (on_storage (insert_notes v new_Date) p)"

section \<open>Integrity of a connection\<close>

text \<open>What the schema's constraints maintain: primary keys and usernames are unique and
  every note references a stored user.\<close>

definition integrity :: "sqlite_db \<Rightarrow> bool" where
  "integrity d \<longleftrightarrow>
     distinct (map users_id (users_rows d))
     \<and> distinct (map username (users_rows d))
     \<and> distinct (map notes_id (notes_rows d))
     \<and> list_all (\<lambda>n. userId n \<in> set (map users_id (users_rows d))) (notes_rows d)"

section \<open>A sample state\<close>

text \<open>The rows \<^verbatim>\<open>seedDatabase\<close> inserts into the shared connection (two users, three
  notes), here with three different creation times.\<close>

definition johndoe :: User where
  "johndoe = \<lparr>users_id = 1, username = ''johndoe'', password = ''password123''\<rparr>"

definition janedoe :: User where
  "janedoe = \<lparr>users_id = 2, username = ''janedoe'', password = ''password456''\<rparr>"

definition note1 :: Note where
  "note1 = \<lparr>notes_id = 1, title = ''Getting Started with Drizzle'', content = ''Drizzle ORM'',
             isImportant = True, userId = 1, createdAt = 3000\<rparr>"

definition note2 :: Note where
  "note2 = \<lparr>notes_id = 2, title = ''SQLite Setup'', content = ''SQLite'',
             isImportant = False, userId = 1, createdAt = 5000\<rparr>"

definition note3 :: Note where
  "note3 = \<lparr>notes_id = 3, title = ''My First Note'', content = ''Jane'',
             isImportant = False, userId = 2, createdAt = 4000\<rparr>"

definition seeded_db :: sqlite_db where
  "seeded_db =
     \<lparr>users_rows = [johndoe, janedoe], notes_rows = [note1, note2, note3],
      users_seq = 2, notes_seq = 3, last_insert_rowid = 3\<rparr>"

definition seeded :: process where
  "seeded = \<lparr>db_index = seeded_db, db_storage = new_Database\<rparr>"

text \<open>The patch \<^verbatim>\<open>{isImportant: true}\<close>.\<close>

definition mark_important :: NotePatch where
  "mark_important =
     \<lparr>set_title = None, set_content = None, set_isImportant = Some True, set_userId = None\<rparr>"

text \<open>The page count as the specification words it: \<open>ceil(N / limit)\<close> for \<open>N\<close> stored
  notes.\<close>

definition number_of_pages :: "nat \<Rightarrow> int \<Rightarrow> int" where
  "number_of_pages N n_limit = \<lceil>real N / real_of_int n_limit\<rceil>"

text \<open>A row is visible when the reads over the shared connection return it: the lookups by
  key, the listings, the search without filters, some page of the default size (in a store
  of fewer than \<open>2 ^ 53\<close> notes, where the offsets of all its pages are exact), the join
  and the per-user summary.\<close>

definition user_visible :: "User \<Rightarrow> process \<Rightarrow> bool" where
  "user_visible u p \<longleftrightarrow>
     fst (getUserById (users_id u) p) = Some u
     \<and> fst (getUserByUsername (username u) p) = Some u
     \<and> u \<in> set (fst (getAllUsers p))
     \<and> map_option user (fst (getUserWithNotes (users_id u) p)) = Some u"

definition note_visible :: "Note \<Rightarrow> process \<Rightarrow> bool" where
  "note_visible n p \<longleftrightarrow>
     fst (getNoteById (notes_id n) p) = Some n
     \<and> n \<in> set (fst (getAllNotes p))
     \<and> n \<in> set (fst (getNotesByUserId (userId n) p))
     \<and> (case fst (searchNotes [] False p) of Inl e \<Rightarrow> False | Inr rows \<Rightarrow> n \<in> set rows)
     \<and> (length (fst (getAllNotes p)) < 2 ^ 53 \<longrightarrow>
          n \<in> set (concat (map (\<lambda>k. case fst (getPaginatedNotes k 10 p) of
                                        Inl e \<Rightarrow> [] | Inr r \<Rightarrow> data r)
                         [1..number_of_pages (length (fst (getAllNotes p))) 10])))
     \<and> (\<exists>u \<in> set (fst (getAllUsers p)).
           select_note_user (n, u) \<in> set (fst (getNotesWithUsers p)))
     \<and> (case fst (getUserWithNotes (userId n) p) of
           None \<Rightarrow> False | Some r \<Rightarrow> n \<in> set (userNotes r))"

text \<open>The same through the reads of the \<^verbatim>\<open>DrizzleStorage\<close> class.\<close>

definition user_visible_DrizzleStorage :: "User \<Rightarrow> process \<Rightarrow> bool" where
  "user_visible_DrizzleStorage u p \<longleftrightarrow>
     fst (DrizzleStorage_getUserById (users_id u) p) = Some u
     \<and> fst (DrizzleStorage_getUserByUsername (username u) p) = Some u
     \<and> u \<in> set (fst (DrizzleStorage_getAllUsers p))"

definition note_visible_DrizzleStorage :: "Note \<Rightarrow> process \<Rightarrow> bool" where
  "note_visible_DrizzleStorage n p \<longleftrightarrow>
     fst (DrizzleStorage_getNoteById (notes_id n) p) = Some n
     \<and> n \<in> set (fst (DrizzleStorage_getAllNotes p))
     \<and> n \<in> set (fst (DrizzleStorage_getNotesByUserId (userId n) p))"

text \<open>The process after \<^verbatim>\<open>storage.createUser\<close> and \<^verbatim>\<open>storage.createNote\<close> were called on
  a freshly started process.\<close>

definition after_storage_writes :: process where
  "after_storage_writes =
     snd (DrizzleStorage_createNote
            \<lparr>ins_title = ''Getting Started with Drizzle'', ins_content = ''Drizzle ORM'',
             ins_isImportant = Some True, ins_userId = 1\<rparr> 3000
            (snd (DrizzleStorage_createUser
                    \<lparr>ins_username = ''johndoe'', ins_password = ''password123''\<rparr>
                    process_start)))"

text \<open>A fourth note, as \<^verbatim>\<open>createNote\<close> stores it in the sample state.\<close>

definition new_note :: InsertNote where
  "new_note = \<lparr>ins_title = ''Shopping'', ins_content = ''Milk'', ins_isImportant = None,
                ins_userId = 2\<rparr>"

definition note4 :: Note where
  "note4 = \<lparr>notes_id = 4, title = ''Shopping'', content = ''Milk'', isImportant = False,
             userId = 2, createdAt = 7000\<rparr>"

text \<open>A note whose title has a NUL character in it.\<close>

definition note5 :: Note where
  "note5 = \<lparr>notes_id = 1, title = [CHR ''x'', CHR 0x00, CHR ''a'', CHR ''b'', CHR ''c''],
             content = ''Drizzle ORM'', isImportant = True, userId = 1, createdAt = 3000\<rparr>"

definition nul_titled :: process where
  "nul_titled =
     \<lparr>db_index = \<lparr>users_rows = [johndoe], notes_rows = [note5], users_seq = 1, notes_seq = 1,
                   last_insert_rowid = 1\<rparr>,
      db_storage = new_Database\<rparr>"

section \<open>Basic facts\<close>

lemmas seeded_defs = seeded_def seeded_db_def johndoe_def janedoe_def note1_def note2_def note3_def
  new_Database_def

lemma first_or_null_eq_None [simp]: "first_or_null xs = None \<longleftrightarrow> xs = []"
  by (cases xs) (simp_all add: first_or_null_def)

lemma index0_eq_None [simp]: "index0 xs = None \<longleftrightarrow> xs = []"
  by (cases xs) (simp_all add: index0_def)

lemma filter_key_distinct:
  "distinct (map f xs) \<Longrightarrow> x \<in> set xs \<Longrightarrow> filter (\<lambda>y. f y = f x) xs = [x]"
proof (induction xs)
  case Nil
  then show ?case by simp
next
  case (Cons a xs)
  show ?case
  proof (cases "a = x")
    case True
    with Cons.prems have "f x \<notin> f ` set xs" by simp
    then have "\<forall>y \<in> set xs. f y \<noteq> f x" by (metis imageI)
    then have "filter (\<lambda>y. f y = f x) xs = []" by (simp add: filter_empty_conv)
    with True show ?thesis by simp
  next
    case False
    with Cons.prems have "x \<in> set xs" "f a \<noteq> f x" by auto
    with Cons show ?thesis by simp
  qed
qed

section \<open>Deleting a user\<close>

text \<open>
  Claim C1. For a stored user with identifier \<open>i\<close>, whatever notes the user owns, after
  \<open>deleteUser i\<close> the query \<open>getNotesByUserId i\<close> returns the empty sequence. The notes go
  with the parent row inside the engine's delete statement; \<open>deleteUser\<close> itself issues only
  the delete on \<^verbatim>\<open>users\<close>.
\<close>

theorem deleteUser_cascades:
  "fst (getUserById i p) \<noteq> None \<Longrightarrow> fst (getNotesByUserId i (snd (deleteUser i p))) = []"
proof -
  assume "fst (getUserById i p) \<noteq> None"
  then have "filter (\<lambda>u. users_id u = i) (users_rows (db_index p)) \<noteq> []"
    by (simp add: getUserById_def)
  then obtain u where "u \<in> set (users_rows (db_index p))" "users_id u = i"
    by (auto simp: filter_empty_conv)
  then have "i \<in> users_id ` set (filter (\<lambda>u. users_id u = i) (users_rows (db_index p)))"
    by force
  then show ?thesis
    by (auto simp: getNotesByUserId_def deleteUser_def on_index_def
      delete_users_by_id_def Let_def filter_empty_conv)
qed

theorem deleteUser_cascades_witness:
  "fst (getUserById 1 seeded) = Some johndoe
   \<and> fst (getNotesByUserId 1 seeded) = [note1, note2]
   \<and> fst (getNotesByUserId 1 (snd (deleteUser 1 seeded))) = []"
  using deleteUser_cascades [of 1 seeded]
  by (simp add: getUserById_def getNotesByUserId_def seeded_defs first_or_null_def)

section \<open>Reads\<close>

text \<open>
  Claim C10. Each of the ten read operations returns the process state it was given: the
  users and notes tables (and everything else) are the same after the call as before it,
  for every state and every argument.
\<close>

theorem reads_leave_state_unchanged:
  "snd (getUserById i p) = p \<and> snd (getUserByUsername name p) = p \<and> snd (getAllUsers p) = p
   \<and> snd (getNoteById i p) = p \<and> snd (getAllNotes p) = p \<and> snd (getNotesByUserId i p) = p
   \<and> snd (searchNotes titleQuery importantOnly p) = p
   \<and> snd (getPaginatedNotes n_page n_limit p) = p
   \<and> snd (getNotesWithUsers p) = p \<and> snd (getUserWithNotes i p) = p"
  by (simp add: getUserById_def getUserByUsername_def getAllUsers_def getNoteById_def
      getAllNotes_def getNotesByUserId_def searchNotes_def getPaginatedNotes_def
      getNotesWithUsers_def getUserWithNotes_def Let_def split: list.split sum.split)

section \<open>A user with notes and statistics\<close>

text \<open>
  Claim C6. \<open>getUserWithNotes i\<close> is absent when no user has identifier \<open>i\<close>. Otherwise it
  carries that user, the user's notes (the stored notes whose \<open>userId\<close> is \<open>i\<close>), and the
  statistics computed from that sequence: \<open>totalNotes\<close> is its length and \<open>importantNotes\<close>
  the number of its notes with \<open>isImportant\<close> set.
\<close>

theorem getUserWithNotes_spec:
  "(fst (getUserById i p) = None \<longrightarrow> fst (getUserWithNotes i p) = None)
   \<and> (\<forall>u. fst (getUserById i p) = Some u \<longrightarrow>
        (\<exists>r. fst (getUserWithNotes i p) = Some r
           \<and> user r = u
           \<and> userNotes r = fst (getNotesByUserId i p)
           \<and> mset (userNotes r) = filter_mset (\<lambda>n. userId n = i) (mset (fst (getAllNotes p)))
           \<and> totalNotes (stats r) = length (userNotes r)
           \<and> importantNotes (stats r) = size (filter_mset isImportant (mset (userNotes r)))))"
  by (auto simp: getUserById_def getUserWithNotes_def getNotesByUserId_def getAllNotes_def
      first_or_null_def Let_def split: list.splits simp flip: mset_filter)

theorem getUserWithNotes_spec_witness:
  "fst (getUserById 3 seeded) = None \<and> fst (getUserWithNotes 3 seeded) = None
   \<and> fst (getUserById 1 seeded) = Some johndoe
   \<and> fst (getUserWithNotes 1 seeded)
       = Some \<lparr>user = johndoe, userNotes = [note1, note2],
               stats = \<lparr>totalNotes = 2, importantNotes = 1\<rparr>\<rparr>"
  using getUserWithNotes_spec [of 3 seeded] getUserWithNotes_spec [of 1 seeded]
  by (simp add: getUserById_def getUserWithNotes_def getNotesByUserId_def getAllNotes_def
      seeded_defs first_or_null_def)

section \<open>Bulk deletion of a user's notes\<close>

text \<open>
  Claim C9. \<open>deleteUserNotes i\<close> removes exactly the notes whose \<open>userId\<close> is \<open>i\<close>: the
  notes that remain are the other users' notes, in their order; the notes of any other
  user and all user rows are as before; and the result's \<open>changes\<close> is the number of notes
  deleted.
\<close>

theorem deleteUserNotes_spec:
  "fst (getAllNotes (snd (deleteUserNotes i p))) = filter (\<lambda>n. userId n \<noteq> i) (fst (getAllNotes p))
   \<and> fst (getNotesByUserId i (snd (deleteUserNotes i p))) = []
   \<and> (\<forall>j. j \<noteq> i \<longrightarrow>
         fst (getNotesByUserId j (snd (deleteUserNotes i p))) = fst (getNotesByUserId j p))
   \<and> fst (getAllUsers (snd (deleteUserNotes i p))) = fst (getAllUsers p)
   \<and> changes (fst (deleteUserNotes i p)) = length (fst (getNotesByUserId i p))"
proof -
  have "\<And>j. j \<noteq> i \<Longrightarrow>
      filter (\<lambda>n. userId n = j) (filter (\<lambda>n. userId n \<noteq> i) (notes_rows (db_index p)))
        = filter (\<lambda>n. userId n = j) (notes_rows (db_index p))"
    by (auto intro: filter_cong)
  then show ?thesis
    by (simp add: deleteUserNotes_def getAllNotes_def getNotesByUserId_def getAllUsers_def
        on_index_def delete_notes_by_userId_def filter_empty_conv)
qed

theorem deleteUserNotes_spec_witness:
  "fst (getAllNotes (snd (deleteUserNotes 1 seeded))) = [note3]
   \<and> fst (getNotesByUserId 1 (snd (deleteUserNotes 1 seeded))) = []
   \<and> fst (getNotesByUserId 2 (snd (deleteUserNotes 1 seeded))) = [note3]
   \<and> fst (getAllUsers (snd (deleteUserNotes 1 seeded))) = [johndoe, janedoe]
   \<and> changes (fst (deleteUserNotes 1 seeded)) = 2"
  using deleteUserNotes_spec [of 1 seeded]
  by (simp add: getAllNotes_def getNotesByUserId_def getAllUsers_def seeded_defs)

section \<open>Marking a note important\<close>

text \<open>
  Claim C8. For a stored note \<open>n\<close>, \<open>updateNote\<close> with the patch \<^verbatim>\<open>{isImportant: true}\<close>
  changes only \<open>isImportant\<close> of the row with \<open>n\<close>'s identifier: title, content, userId and
  createdAt stay, every other note and every user row is unchanged, and (identifiers being
  unique) the call returns \<open>n\<close> with \<open>isImportant\<close> set, which is what \<open>getNoteById\<close> then
  finds.
\<close>

theorem updateNote_isImportant_only:
  assumes "n \<in> set (fst (getAllNotes p))"
  shows "fst (getAllNotes (snd (updateNote (notes_id n) mark_important p)))
           = map (\<lambda>m. if notes_id m = notes_id n then m\<lparr>isImportant := True\<rparr> else m)
               (fst (getAllNotes p))
    \<and> fst (getAllUsers (snd (updateNote (notes_id n) mark_important p))) = fst (getAllUsers p)
    \<and> db_storage (snd (updateNote (notes_id n) mark_important p)) = db_storage p
    \<and> (integrity (db_index p) \<longrightarrow>
         fst (updateNote (notes_id n) mark_important p) = Inr (Some (n\<lparr>isImportant := True\<rparr>))
         \<and> fst (getNoteById (notes_id n) (snd (updateNote (notes_id n) mark_important p)))
             = Some (n\<lparr>isImportant := True\<rparr>))"
proof -
  let ?rows = "notes_rows (db_index p)"
  let ?upd = "\<lambda>m. if notes_id m = notes_id n then m\<lparr>isImportant := True\<rparr> else m"
  have patch: "apply_NotePatch mark_important m = m\<lparr>isImportant := True\<rparr>" for m
    by (simp add: apply_NotePatch_def mark_important_def)
  have stmt: "update_notes_by_id (notes_id n) mark_important (db_index p)
      = (Inr (filter (\<lambda>m. notes_id m = notes_id n) (map ?upd ?rows)),
         (db_index p)\<lparr>notes_rows := map ?upd ?rows\<rparr>)"
    unfolding update_notes_by_id_def Let_def patch
    by (simp add: mark_important_def)
  have filt: "filter (\<lambda>m. notes_id m = notes_id n) (map ?upd rows)
      = map (\<lambda>m. m\<lparr>isImportant := True\<rparr>) (filter (\<lambda>m. notes_id m = notes_id n) rows)"
    for rows :: "Note list"
    by (induction rows) auto
  have one: "filter (\<lambda>m. notes_id m = notes_id n) ?rows = [n]" if "integrity (db_index p)"
    using that assms filter_key_distinct [of notes_id ?rows n]
    by (simp add: integrity_def getAllNotes_def)
  show ?thesis
    using one
    by (simp add: updateNote_def getAllNotes_def getAllUsers_def getNoteById_def on_index_def
        returning_def stmt filt first_or_null_def)
qed

theorem updateNote_isImportant_only_witness:
  "note2 \<in> set (fst (getAllNotes seeded))
   \<and> fst (getAllNotes (snd (updateNote 2 mark_important seeded)))
       = [note1, note2\<lparr>isImportant := True\<rparr>, note3]
   \<and> fst (getAllUsers (snd (updateNote 2 mark_important seeded))) = [johndoe, janedoe]
   \<and> fst (updateNote 2 mark_important seeded) = Inr (Some (note2\<lparr>isImportant := True\<rparr>))
   \<and> integrity (db_index seeded)"
proof -
  have i: "integrity (db_index seeded)"
    by (simp add: integrity_def seeded_defs)
  have m: "note2 \<in> set (fst (getAllNotes seeded))"
    by (simp add: getAllNotes_def seeded_defs)
  have id2: "notes_id note2 = 2"
    by (simp add: note2_def)
  show ?thesis
    using i m updateNote_isImportant_only [OF m]
    by (simp add: id2) (simp add: getAllNotes_def getAllUsers_def seeded_defs)
qed

section \<open>Duplicate usernames\<close>

text \<open>
  Claim C3, as amended. When a stored user \<open>u\<close> already has the username, \<open>createUser\<close>
  fails with the engine's own error for the unique constraint, passed on as the driver
  raised it: its code is \<^verbatim>\<open>SQLITE_CONSTRAINT_UNIQUE\<close>, its message names the column
  \<^verbatim>\<open>users.username\<close>, and it carries no field tag. The state is the one before the call,
  and \<open>u\<close> is still what \<open>getUserById\<close> and \<open>getUserByUsername\<close> return.
\<close>

theorem createUser_duplicate_username:
  assumes "integrity (db_index p)" and "u \<in> set (fst (getAllUsers p))"
    and "ins_username v = username u"
  shows "createUser v p
           = (Inl (SqliteError SQLITE_CONSTRAINT_UNIQUE ''UNIQUE constraint failed: users.username''), p)
    \<and> (case fst (createUser v p) of Inl e \<Rightarrow> field_tag e = None | Inr r \<Rightarrow> False)
    \<and> fst (getUserById (users_id u) (snd (createUser v p))) = Some u
    \<and> fst (getUserByUsername (username u) (snd (createUser v p))) = Some u"
proof -
  have fails: "createUser v p = (Inl unique_failed_users_username, p)"
    using assms(2,3)
    by (auto simp: createUser_def getAllUsers_def on_index_def returning_def insert_users_def)
  have "filter (\<lambda>w. users_id w = users_id u) (users_rows (db_index p)) = [u]"
    using assms(1,2) filter_key_distinct [of users_id "users_rows (db_index p)" u]
    by (simp add: integrity_def getAllUsers_def)
  moreover have "filter (\<lambda>w. username w = username u) (users_rows (db_index p)) = [u]"
    using assms(1,2) filter_key_distinct [of username "users_rows (db_index p)" u]
    by (simp add: integrity_def getAllUsers_def)
  ultimately show ?thesis
    using fails
    by (simp add: getUserById_def getUserByUsername_def first_or_null_def
        unique_failed_users_username_def)
qed

theorem createUser_duplicate_username_witness:
  "integrity (db_index seeded) \<and> johndoe \<in> set (fst (getAllUsers seeded))
   \<and> createUser \<lparr>ins_username = ''johndoe'', ins_password = ''other''\<rparr> seeded
       = (Inl (SqliteError SQLITE_CONSTRAINT_UNIQUE ''UNIQUE constraint failed: users.username''),
          seeded)
   \<and> fst (getUserById 1 seeded) = Some johndoe
   \<and> fst (getUserByUsername ''johndoe'' seeded) = Some johndoe"
proof -
  have i: "integrity (db_index seeded)"
    by (simp add: integrity_def seeded_defs)
  have m: "johndoe \<in> set (fst (getAllUsers seeded))"
    by (simp add: getAllUsers_def seeded_defs)
  have e: "ins_username \<lparr>ins_username = ''johndoe'', ins_password = ''other''\<rparr> = username johndoe"
    by (simp add: johndoe_def)
  have "users_id johndoe = 1" "username johndoe = ''johndoe''"
    by (simp_all add: johndoe_def)
  then show ?thesis
    using i m createUser_duplicate_username [OF i m e] by auto
qed

text \<open>
  The claim as first stated asks for a constraint-violation error that carries a field or
  resource tag. The error of the second \<open>createUser\<close> is the driver's, with a code and a
  message and no tag; the tagged \<^verbatim>\<open>UniqueConstraintError\<close> is not what the call is rejected
  with.
\<close>

theorem createUser_error_tag_counterexample:
  "fst (createUser \<lparr>ins_username = ''johndoe'', ins_password = ''other''\<rparr> seeded)
     = Inl (SqliteError SQLITE_CONSTRAINT_UNIQUE ''UNIQUE constraint failed: users.username'')
   \<and> field_tag (SqliteError SQLITE_CONSTRAINT_UNIQUE ''UNIQUE constraint failed: users.username'')
       = None
   \<and> fst (createUser \<lparr>ins_username = ''johndoe'', ins_password = ''other''\<rparr> seeded)
       \<noteq> Inl (UniqueConstraintError ''username'')"
  by (simp add: createUser_def on_index_def returning_def insert_users_def
      unique_failed_users_username_def seeded_defs)

section \<open>Ordering and the join\<close>

lemma orderBy_desc_mset [simp]: "mset (orderBy_desc col rows) = mset rows"
  by (simp add: orderBy_desc_def)

lemma orderBy_desc_set [simp]: "set (orderBy_desc col rows) = set rows"
  by (simp add: orderBy_desc_def)

lemma orderBy_desc_length [simp]: "length (orderBy_desc col rows) = length rows"
  by (simp add: orderBy_desc_def)

lemma orderBy_desc_sorted: "sorted_wrt (\<lambda>a b. col b \<le> col a) (orderBy_desc col rows)"
proof -
  have "sorted (map (\<lambda>r. - col r) (orderBy_desc col rows))"
    by (simp add: orderBy_desc_def)
  then show ?thesis
    by (simp add: sorted_map)
qed

lemma insort_key_map_commute:
  "insort_key k (g x) (map g xs) = map g (insort_key (\<lambda>y. k (g y)) x xs)"
  by (induction xs) simp_all

lemma orderBy_desc_map:
  "orderBy_desc col (map g rows) = map g (orderBy_desc (\<lambda>r. col (g r)) rows)"
  unfolding orderBy_desc_def
  by (induction rows) (simp_all add: insort_key_map_commute)

lemma innerJoin_eq_filter_product:
  "innerJoin_notes_users d
     = filter (\<lambda>r. userId (fst r) = users_id (snd r)) (List.product (notes_rows d) (users_rows d))"
proof -
  have "concat (map (\<lambda>n. map (\<lambda>u. (n, u)) (filter (\<lambda>u. userId n = users_id u) us)) ns)
      = filter (\<lambda>r. userId (fst r) = users_id (snd r)) (List.product ns us)"
    for ns :: "Note list" and us :: "User list"
    by (induction ns) (simp_all add: filter_map comp_def)
  then show ?thesis
    by (simp add: innerJoin_notes_users_def)
qed

lemma innerJoin_password_update:
  "innerJoin_notes_users (d\<lparr>users_rows := map (\<lambda>u. u\<lparr>password := f u\<rparr>) (users_rows d)\<rparr>)
     = map (\<lambda>r. (fst r, (snd r)\<lparr>password := f (snd r)\<rparr>)) (innerJoin_notes_users d)"
  by (simp add: innerJoin_notes_users_def map_concat filter_map comp_def)

lemma innerJoin_length:
  assumes "integrity d"
  shows "length (innerJoin_notes_users d) = length (notes_rows d)"
proof -
  have one: "length (filter (\<lambda>u. userId n = users_id u) (users_rows d)) = 1"
    if "n \<in> set (notes_rows d)" for n
  proof -
    from that assms obtain u where u: "u \<in> set (users_rows d)" "users_id u = userId n"
      by (auto simp: integrity_def list_all_iff)
    have "filter (\<lambda>w. users_id w = users_id u) (users_rows d) = [u]"
      using assms u(1) by (intro filter_key_distinct) (simp_all add: integrity_def)
    moreover have "filter (\<lambda>w. userId n = users_id w) (users_rows d)
        = filter (\<lambda>w. users_id w = users_id u) (users_rows d)"
      using u(2) by (intro filter_cong) auto
    ultimately show ?thesis by simp
  qed
  have "length (innerJoin_notes_users d)
      = sum_list (map (\<lambda>n. length (filter (\<lambda>u. userId n = users_id u) (users_rows d))) (notes_rows d))"
    by (simp add: innerJoin_notes_users_def length_concat comp_def)
  also have "\<dots> = sum_list (map (\<lambda>n. 1) (notes_rows d))"
    using one by (intro arg_cong [where f = sum_list] map_cong) simp_all
  also have "\<dots> = length (notes_rows d)"
    by (simp add: sum_list_triv)
  finally show ?thesis .
qed

text \<open>
  Claim C7. The rows of \<open>getNotesWithUsers\<close> come from exactly the pairs of a stored note and
  a stored user with \<open>userId\<close> of the note equal to the identifier of the user (a note without
  such a user contributes nothing), taken newest note first by the stored \<open>createdAt\<close>. The
  row of a pair has a note part holding the note's identifier, title, content, importance
  and creation time, and a user part holding the user's identifier and username and nothing
  else. The result does not depend on any stored password, and under referential integrity
  no note is dropped.
\<close>

theorem getNotesWithUsers_spec:
  "(\<exists>joined.
       mset joined
         = filter_mset (\<lambda>r. userId (fst r) = users_id (snd r))
             (mset (List.product (fst (getAllNotes p)) (fst (getAllUsers p))))
     \<and> sorted_wrt (\<lambda>a b. createdAt (fst b) \<le> createdAt (fst a)) joined
     \<and> fst (getNotesWithUsers p)
         = map (\<lambda>r. \<lparr>row_note = \<lparr>part_id = notes_id (fst r), part_title = title (fst r),
                                      part_content = content (fst r),
                                      part_isImportant = isImportant (fst r),
                                      part_createdAt = createdAt (fst r)\<rparr>,
                         row_user = \<lparr>part_user_id = users_id (snd r),
                                      part_username = username (snd r)\<rparr>\<rparr>) joined)
   \<and> (\<forall>f. fst (getNotesWithUsers
               (p\<lparr>db_index := (db_index p)\<lparr>users_rows :=
                     map (\<lambda>u. u\<lparr>password := f u\<rparr>) (users_rows (db_index p))\<rparr>\<rparr>))
          = fst (getNotesWithUsers p))
   \<and> (integrity (db_index p) \<longrightarrow>
        length (fst (getNotesWithUsers p)) = length (fst (getAllNotes p)))"
proof (intro conjI allI impI)
  let ?joined = "orderBy_desc (\<lambda>r. createdAt (fst r)) (innerJoin_notes_users (db_index p))"
  have "mset ?joined
         = filter_mset (\<lambda>r. userId (fst r) = users_id (snd r))
             (mset (List.product (fst (getAllNotes p)) (fst (getAllUsers p))))"
    by (simp add: getAllNotes_def getAllUsers_def innerJoin_eq_filter_product)
  moreover have "sorted_wrt (\<lambda>a b. createdAt (fst b) \<le> createdAt (fst a)) ?joined"
    by (rule orderBy_desc_sorted)
  moreover have "fst (getNotesWithUsers p)
         = map (\<lambda>r. \<lparr>row_note = \<lparr>part_id = notes_id (fst r), part_title = title (fst r),
                                      part_content = content (fst r),
                                      part_isImportant = isImportant (fst r),
                                      part_createdAt = createdAt (fst r)\<rparr>,
                         row_user = \<lparr>part_user_id = users_id (snd r),
                                      part_username = username (snd r)\<rparr>\<rparr>) ?joined"
    by (simp add: getNotesWithUsers_def select_note_user_def)
  ultimately show "\<exists>joined.
       mset joined
         = filter_mset (\<lambda>r. userId (fst r) = users_id (snd r))
             (mset (List.product (fst (getAllNotes p)) (fst (getAllUsers p))))
     \<and> sorted_wrt (\<lambda>a b. createdAt (fst b) \<le> createdAt (fst a)) joined
     \<and> fst (getNotesWithUsers p)
         = map (\<lambda>r. \<lparr>row_note = \<lparr>part_id = notes_id (fst r), part_title = title (fst r),
                                      part_content = content (fst r),
                                      part_isImportant = isImportant (fst r),
                                      part_createdAt = createdAt (fst r)\<rparr>,
                         row_user = \<lparr>part_user_id = users_id (snd r),
                                      part_username = username (snd r)\<rparr>\<rparr>) joined"
    by blast
next
  fix f
  have "select_note_user (fst r, (snd r)\<lparr>password := f (snd r)\<rparr>) = select_note_user r" for r
    by (simp add: select_note_user_def)
  then show "fst (getNotesWithUsers
               (p\<lparr>db_index := (db_index p)\<lparr>users_rows :=
                     map (\<lambda>u. u\<lparr>password := f u\<rparr>) (users_rows (db_index p))\<rparr>\<rparr>))
          = fst (getNotesWithUsers p)"
    by (simp add: getNotesWithUsers_def innerJoin_password_update orderBy_desc_map comp_def)
next
  assume "integrity (db_index p)"
  then show "length (fst (getNotesWithUsers p)) = length (fst (getAllNotes p))"
    by (simp add: getNotesWithUsers_def getAllNotes_def innerJoin_length)
qed

theorem getNotesWithUsers_spec_witness:
  "integrity (db_index seeded)
   \<and> length (fst (getNotesWithUsers seeded)) = length (fst (getAllNotes seeded))
   \<and> fst (getNotesWithUsers seeded)
       = [\<lparr>row_note = \<lparr>part_id = 2, part_title = ''SQLite Setup'', part_content = ''SQLite'',
                       part_isImportant = False, part_createdAt = 5000\<rparr>,
           row_user = \<lparr>part_user_id = 1, part_username = ''johndoe''\<rparr>\<rparr>,
          \<lparr>row_note = \<lparr>part_id = 3, part_title = ''My First Note'', part_content = ''Jane'',
                       part_isImportant = False, part_createdAt = 4000\<rparr>,
           row_user = \<lparr>part_user_id = 2, part_username = ''janedoe''\<rparr>\<rparr>,
          \<lparr>row_note = \<lparr>part_id = 1, part_title = ''Getting Started with Drizzle'',
                       part_content = ''Drizzle ORM'', part_isImportant = True,
                       part_createdAt = 3000\<rparr>,
           row_user = \<lparr>part_user_id = 1, part_username = ''johndoe''\<rparr>\<rparr>]"
proof -
  have i: "integrity (db_index seeded)"
    by (simp add: integrity_def seeded_defs)
  have "length (fst (getNotesWithUsers seeded)) = length (fst (getAllNotes seeded))"
    using getNotesWithUsers_spec [of seeded] i by blast
  moreover have "fst (getNotesWithUsers seeded)
       = [\<lparr>row_note = \<lparr>part_id = 2, part_title = ''SQLite Setup'', part_content = ''SQLite'',
                       part_isImportant = False, part_createdAt = 5000\<rparr>,
           row_user = \<lparr>part_user_id = 1, part_username = ''johndoe''\<rparr>\<rparr>,
          \<lparr>row_note = \<lparr>part_id = 3, part_title = ''My First Note'', part_content = ''Jane'',
                       part_isImportant = False, part_createdAt = 4000\<rparr>,
           row_user = \<lparr>part_user_id = 2, part_username = ''janedoe''\<rparr>\<rparr>,
          \<lparr>row_note = \<lparr>part_id = 1, part_title = ''Getting Started with Drizzle'',
                       part_content = ''Drizzle ORM'', part_isImportant = True,
                       part_createdAt = 3000\<rparr>,
           row_user = \<lparr>part_user_id = 1, part_username = ''johndoe''\<rparr>\<rparr>]"
    by (simp add: getNotesWithUsers_def innerJoin_notes_users_def orderBy_desc_def
        select_note_user_def seeded_defs)
  ultimately show ?thesis
    using i by simp
qed

section \<open>Searching notes\<close>

lemma like_match_percent: "like_match [CHR ''%''] s"
  by (induction s) simp_all

lemma like_match_literal_prefix:
  assumes "CHR ''%'' \<notin> set q" and "CHR ''_'' \<notin> set q"
  shows "like_match (q @ [CHR ''%'']) s
           \<longleftrightarrow> prefix (map sqlite_tolower q) (map sqlite_tolower s)"
  using assms
proof (induction q arbitrary: s)
  case Nil
  then show ?case by (simp add: like_match_percent)
next
  case (Cons a q)
  then show ?case by (cases s) auto
qed

lemma like_match_contains:
  assumes "CHR ''%'' \<notin> set q" and "CHR ''_'' \<notin> set q"
  shows "like_match (CHR ''%'' # q @ [CHR ''%'']) s
           \<longleftrightarrow> sublist (map sqlite_tolower q) (map sqlite_tolower s)"
proof (induction s)
  case Nil
  then show ?case
    using like_match_literal_prefix [OF assms, of "[]"] by simp
next
  case (Cons c s)
  then show ?case
    using like_match_literal_prefix [OF assms, of "c # s"]
    by (simp add: sublist_Cons_right)
qed

lemma c_string_no_NUL: "CHR 0x00 \<notin> set s \<Longrightarrow> c_string s = s"
  by (auto simp: c_string_def takeWhile_eq_all_conv)

lemma utf8_bytes_pattern:
  "utf8_bytes (CHR ''%'' # q @ [CHR ''%'']) = utf8_bytes q + 2"
  by (simp add: utf8_bytes_def)

lemma utf8_bytes_replicate_a: "utf8_bytes (replicate k (CHR ''a'')) = k"
  by (induction k) (simp_all add: utf8_bytes_def)

lemma where_clause_Inr:
  assumes "\<And>r. r \<in> set rs \<Longrightarrow> c r = Inr (P r)"
  shows "where_clause c rs = Inr (filter P rs)"
  using assms by (induction rs) simp_all

lemma where_clause_Inl:
  assumes "rs \<noteq> []" and "\<And>r. c r = Inl e"
  shows "where_clause c rs = Inl e"
  using assms by (cases rs) simp_all

text \<open>The filter that a search applies when the engine accepts its pattern.\<close>

lemma searchNotes_accepted:
  assumes "titleQuery = [] \<or> utf8_bytes titleQuery \<le> 49998"
  shows "fst (searchNotes titleQuery importantOnly p)
           = Inr (orderBy_desc createdAt
               (filter (\<lambda>n. (titleQuery \<noteq> [] \<longrightarrow>
                              like_match (c_string (CHR ''%'' # titleQuery @ [CHR ''%'']))
                                (c_string (title n)))
                           \<and> (importantOnly \<longrightarrow> isImportant n))
                  (notes_rows (db_index p))))"
proof (cases "titleQuery = []")
  case True
  show ?thesis
  proof (cases importantOnly)
    case True
    have "where_clause (and_conditions [\<lambda>n. Inr (isImportant n = True)]) (notes_rows (db_index p))
        = Inr (filter isImportant (notes_rows (db_index p)))"
      by (rule where_clause_Inr) simp
    with True \<open>titleQuery = []\<close> show ?thesis
      by (simp add: searchNotes_def)
  next
    case False
    with \<open>titleQuery = []\<close> show ?thesis
      by (simp add: searchNotes_def)
  qed
next
  case False
  with assms have short: "\<not> 50000 < utf8_bytes (CHR ''%'' # titleQuery @ [CHR ''%''])"
    by (simp add: utf8_bytes_pattern)
  let ?m = "\<lambda>n. like_match (c_string (CHR ''%'' # titleQuery @ [CHR ''%''])) (c_string (title n))"
  show ?thesis
  proof (cases importantOnly)
    case True
    have "where_clause
            (and_conditions [\<lambda>n. like (title n) (CHR ''%'' # titleQuery @ [CHR ''%'']),
                             \<lambda>n. Inr (isImportant n = True)])
            (notes_rows (db_index p))
        = Inr (filter (\<lambda>n. ?m n \<and> isImportant n) (notes_rows (db_index p)))"
      using short by (intro where_clause_Inr) (simp add: like_def)
    with True False show ?thesis
      by (simp add: searchNotes_def)
  next
    case no: False
    have "where_clause
            (and_conditions [\<lambda>n. like (title n) (CHR ''%'' # titleQuery @ [CHR ''%''])])
            (notes_rows (db_index p))
        = Inr (filter ?m (notes_rows (db_index p)))"
      using short by (intro where_clause_Inr) (simp add: like_def)
    with no False show ?thesis
      by (simp add: searchNotes_def)
  qed
qed

lemma searchNotes_no_rows:
  assumes "notes_rows (db_index p) = []"
  shows "fst (searchNotes titleQuery importantOnly p) = Inr []"
  using assms by (simp add: searchNotes_def orderBy_desc_def)

lemma searchNotes_rejected:
  assumes "titleQuery \<noteq> []" and "49998 < utf8_bytes titleQuery"
    and "notes_rows (db_index p) \<noteq> []"
  shows "fst (searchNotes titleQuery importantOnly p) = Inl like_too_complex"
proof -
  have long: "50000 < utf8_bytes (CHR ''%'' # titleQuery @ [CHR ''%''])"
    using assms(2) by (simp add: utf8_bytes_pattern)
  have "where_clause
          (and_conditions ((\<lambda>n. like (title n) (CHR ''%'' # titleQuery @ [CHR ''%''])) # cs))
          (notes_rows (db_index p))
      = Inl like_too_complex" for cs :: "(Note \<Rightarrow> error + bool) list"
    using assms(3) long by (intro where_clause_Inl) (simp_all add: like_def)
  from this [of "[]"] this [of "[\<lambda>n. Inr (isImportant n = True)]"] assms(1) show ?thesis
    by (simp add: searchNotes_def)
qed

text \<open>
  Claim C5, as amended. Take a \<open>titleQuery\<close> of at most 49998 bytes (a longer one is
  rejected by the engine as a pattern too complex, as soon as there is a note to match).
  Then \<open>searchNotes titleQuery importantOnly\<close> returns stored notes, ordered by \<open>createdAt\<close>
  newest first, all of them important when \<open>importantOnly\<close> is set. If moreover neither
  \<^verbatim>\<open>%\<close> nor \<^verbatim>\<open>_\<close> nor a NUL character occurs in \<open>titleQuery\<close>, the result is exactly the
  stored notes (with their multiplicity) that satisfy both active filters: when
  \<open>titleQuery\<close> is non-empty, the title, read up to its first NUL character if it has one,
  contains it as a substring up to the case of ASCII letters; when \<open>importantOnly\<close> is set,
  \<open>isImportant\<close> holds. And \<open>searchNotes [] False\<close> returns every note.
\<close>

theorem searchNotes_spec:
  "(titleQuery \<noteq> [] \<and> 49998 < utf8_bytes titleQuery \<and> fst (getAllNotes p) \<noteq> [] \<longrightarrow>
      fst (searchNotes titleQuery importantOnly p) = Inl like_too_complex)
   \<and> (titleQuery = [] \<or> utf8_bytes titleQuery \<le> 49998 \<or> fst (getAllNotes p) = [] \<longrightarrow>
        (\<exists>rows. fst (searchNotes titleQuery importantOnly p) = Inr rows
           \<and> sorted_wrt (\<lambda>a b. createdAt b \<le> createdAt a) rows
           \<and> mset rows \<subseteq># mset (fst (getAllNotes p))
           \<and> (importantOnly \<longrightarrow> (\<forall>n \<in> set rows. isImportant n))))
   \<and> (CHR ''%'' \<notin> set titleQuery \<and> CHR ''_'' \<notin> set titleQuery \<and> CHR 0x00 \<notin> set titleQuery
        \<and> utf8_bytes titleQuery \<le> 49998 \<longrightarrow>
        (\<exists>rows. fst (searchNotes titleQuery importantOnly p) = Inr rows
           \<and> mset rows
               = filter_mset
                   (\<lambda>n. (titleQuery \<noteq> [] \<longrightarrow>
                            sublist (map sqlite_tolower titleQuery)
                              (map sqlite_tolower (c_string (title n))))
                        \<and> (importantOnly \<longrightarrow> isImportant n))
                   (mset (fst (getAllNotes p)))))
   \<and> (\<exists>rows. fst (searchNotes [] False p) = Inr rows \<and> mset rows = mset (fst (getAllNotes p)))"
proof (intro conjI impI)
  assume "titleQuery \<noteq> [] \<and> 49998 < utf8_bytes titleQuery \<and> fst (getAllNotes p) \<noteq> []"
  then show "fst (searchNotes titleQuery importantOnly p) = Inl like_too_complex"
    by (intro searchNotes_rejected) (simp_all add: getAllNotes_def)
next
  assume "titleQuery = [] \<or> utf8_bytes titleQuery \<le> 49998 \<or> fst (getAllNotes p) = []"
  then consider "titleQuery = [] \<or> utf8_bytes titleQuery \<le> 49998"
    | "notes_rows (db_index p) = []"
    by (auto simp: getAllNotes_def)
  then show "\<exists>rows. fst (searchNotes titleQuery importantOnly p) = Inr rows
           \<and> sorted_wrt (\<lambda>a b. createdAt b \<le> createdAt a) rows
           \<and> mset rows \<subseteq># mset (fst (getAllNotes p))
           \<and> (importantOnly \<longrightarrow> (\<forall>n \<in> set rows. isImportant n))"
  proof cases
    case 1
    let ?rows = "orderBy_desc createdAt
        (filter (\<lambda>n. (titleQuery \<noteq> [] \<longrightarrow>
                       like_match (c_string (CHR ''%'' # titleQuery @ [CHR ''%'']))
                         (c_string (title n)))
                    \<and> (importantOnly \<longrightarrow> isImportant n))
           (notes_rows (db_index p)))"
    have "fst (searchNotes titleQuery importantOnly p) = Inr ?rows"
      by (rule searchNotes_accepted [OF 1])
    moreover have "sorted_wrt (\<lambda>a b. createdAt b \<le> createdAt a) ?rows"
      by (rule orderBy_desc_sorted)
    moreover have "mset ?rows \<subseteq># mset (fst (getAllNotes p))"
      by (simp add: getAllNotes_def)
    moreover have "importantOnly \<longrightarrow> (\<forall>n \<in> set ?rows. isImportant n)"
      by simp
    ultimately show ?thesis
      by blast
  next
    case 2
    then show ?thesis
      by (simp add: searchNotes_no_rows)
  qed
next
  assume a: "CHR ''%'' \<notin> set titleQuery \<and> CHR ''_'' \<notin> set titleQuery
      \<and> CHR 0x00 \<notin> set titleQuery \<and> utf8_bytes titleQuery \<le> 49998"
  then have "c_string (CHR ''%'' # titleQuery @ [CHR ''%'']) = CHR ''%'' # titleQuery @ [CHR ''%'']"
    by (intro c_string_no_NUL) simp
  moreover have "like_match (CHR ''%'' # titleQuery @ [CHR ''%'']) s
      \<longleftrightarrow> sublist (map sqlite_tolower titleQuery) (map sqlite_tolower s)" for s
    using a by (intro like_match_contains) simp_all
  ultimately show "\<exists>rows. fst (searchNotes titleQuery importantOnly p) = Inr rows
           \<and> mset rows
               = filter_mset
                   (\<lambda>n. (titleQuery \<noteq> [] \<longrightarrow>
                            sublist (map sqlite_tolower titleQuery)
                              (map sqlite_tolower (c_string (title n))))
                        \<and> (importantOnly \<longrightarrow> isImportant n))
                   (mset (fst (getAllNotes p)))"
    using a by (simp add: searchNotes_accepted getAllNotes_def)
next
  show "\<exists>rows. fst (searchNotes [] False p) = Inr rows \<and> mset rows = mset (fst (getAllNotes p))"
    by (simp add: searchNotes_accepted getAllNotes_def)
qed

theorem searchNotes_spec_witness:
  "CHR ''%'' \<notin> set ''s'' \<and> CHR ''_'' \<notin> set ''s'' \<and> CHR 0x00 \<notin> set ''s''
   \<and> utf8_bytes ''s'' \<le> 49998
   \<and> fst (searchNotes ''s'' True seeded) = Inr [note1]
   \<and> fst (searchNotes ''s'' False seeded) = Inr [note2, note3, note1]
   \<and> fst (searchNotes [] False seeded) = Inr [note2, note3, note1]"
proof -
  have a: "CHR ''%'' \<notin> set ''s'' \<and> CHR ''_'' \<notin> set ''s'' \<and> CHR 0x00 \<notin> set ''s''
      \<and> utf8_bytes ''s'' \<le> 49998"
    by (simp add: utf8_bytes_def)
  have n: "fst (getAllNotes seeded) = [note1, note2, note3]"
    by (simp add: getAllNotes_def seeded_defs)
  obtain rows where rows: "fst (searchNotes ''s'' True seeded) = Inr rows"
    and m: "mset rows
        = filter_mset
            (\<lambda>n. (''s'' \<noteq> [] \<longrightarrow>
                     sublist (map sqlite_tolower ''s'') (map sqlite_tolower (c_string (title n))))
                 \<and> (True \<longrightarrow> isImportant n))
            (mset (fst (getAllNotes seeded)))"
    using searchNotes_spec [of "''s''" seeded True] a by blast
  have "mset rows = {#note1#}"
    unfolding m n
    by (simp add: note1_def note2_def note3_def c_string_def sqlite_tolower_def
        UpperToLower_def sublist_Cons_right)
  then have "rows = [note1]"
    by (simp add: mset_single_iff_right)
  with rows have "fst (searchNotes ''s'' True seeded) = Inr [note1]"
    by simp
  moreover have "fst (searchNotes ''s'' False seeded) = Inr [note2, note3, note1]"
    by (simp add: searchNotes_def like_def c_string_def utf8_bytes_def orderBy_desc_def
        seeded_defs sqlite_tolower_def UpperToLower_def)
  moreover have "fst (searchNotes [] False seeded) = Inr [note2, note3, note1]"
    by (simp add: searchNotes_def orderBy_desc_def seeded_defs)
  ultimately show ?thesis
    using a by simp
qed

text \<open>
  The claim as first stated (the title contains \<open>titleQuery\<close> as a substring, for every
  \<open>titleQuery\<close>) fails. The query \<^verbatim>\<open>_\<close> returns the note titled \<^verbatim>\<open>SQLite Setup\<close>, which
  has no underscore; the query \<^verbatim>\<open>s\<close> returns it too, although it has no lower-case s; so
  does the query made of one NUL character. A query of 49999 letters is rejected. And the
  query \<^verbatim>\<open>abc\<close> does not find a title that has \<^verbatim>\<open>abc\<close> after a NUL character.
\<close>

theorem searchNotes_substring_counterexample:
  "fst (searchNotes ''_'' False seeded) = Inr [note2, note3, note1]
   \<and> \<not> sublist ''_'' (title note2)
   \<and> fst (searchNotes ''s'' False seeded) = Inr [note2, note3, note1]
   \<and> \<not> sublist ''s'' (title note2)
   \<and> fst (searchNotes [CHR 0x00] False seeded) = Inr [note2, note3, note1]
   \<and> \<not> sublist [CHR 0x00] (title note2)
   \<and> fst (searchNotes (replicate 49999 (CHR ''a'')) False seeded) = Inl like_too_complex
   \<and> fst (searchNotes ''abc'' False nul_titled) = Inr []
   \<and> sublist ''abc'' (title note5)"
proof -
  have "fst (searchNotes (replicate 49999 (CHR ''a'')) False seeded) = Inl like_too_complex"
    by (rule searchNotes_rejected) (simp_all add: utf8_bytes_replicate_a seeded_defs)
  moreover have "fst (searchNotes ''_'' False seeded) = Inr [note2, note3, note1]"
    and "fst (searchNotes ''s'' False seeded) = Inr [note2, note3, note1]"
    and "fst (searchNotes [CHR 0x00] False seeded) = Inr [note2, note3, note1]"
    by (simp_all add: searchNotes_def like_def c_string_def utf8_bytes_def orderBy_desc_def
        seeded_defs sqlite_tolower_def UpperToLower_def)
  moreover have "fst (searchNotes ''abc'' False nul_titled) = Inr []"
    by (simp add: searchNotes_def like_def c_string_def utf8_bytes_def orderBy_desc_def
        nul_titled_def note5_def sqlite_tolower_def UpperToLower_def)
  moreover have "\<not> sublist ''_'' (title note2)" "\<not> sublist ''s'' (title note2)"
    "\<not> sublist [CHR 0x00] (title note2)" "sublist ''abc'' (title note5)"
    by (simp_all add: note2_def note5_def sublist_Cons_right)
  ultimately show ?thesis
    by simp
qed

section \<open>JavaScript arithmetic on integers\<close>

lemma bit_length_le: "n < 2 ^ k \<Longrightarrow> bit_length n \<le> k"
proof (induction k arbitrary: n)
  case 0
  then show ?case by (simp add: bit_length.simps)
next
  case (Suc k)
  show ?case
  proof (cases "n = 0")
    case True
    then show ?thesis by (simp add: bit_length.simps)
  next
    case False
    from Suc.prems have "n div 2 < 2 ^ k" by simp
    then have "bit_length (n div 2) \<le> k" by (rule Suc.IH)
    with False show ?thesis by (subst bit_length.simps) simp
  qed
qed

lemma power_bit_length_le: "n \<noteq> 0 \<Longrightarrow> 2 ^ bit_length n \<le> 2 * n"
proof (induction n rule: bit_length.induct)
  case (1 n)
  show ?case
  proof (cases "n div 2 = 0")
    case True
    with "1.prems" have "n = 1" by (simp add: div_eq_0_iff) 
    then show ?thesis by (simp add: bit_length.simps [of "Suc 0"] bit_length.simps [of 0])
  next
    case False
    with "1.IH" "1.prems" have "2 ^ bit_length (n div 2) \<le> 2 * (n div 2)" by simp
    also have "\<dots> \<le> n" by simp
    finally have "2 * 2 ^ bit_length (n div 2) \<le> 2 * n" by simp
    with "1.prems" show ?thesis by (subst bit_length.simps) simp
  qed
qed

lemma double_of_nat_exact: "a < 2 ^ 53 \<Longrightarrow> double_of_nat a = a"
  by (simp add: double_of_nat_def bit_length_le)

lemma double_of_nat_lower:
  assumes "2 ^ k \<le> a"
  shows "2 ^ k \<le> double_of_nat a"
proof (cases "bit_length a \<le> 53")
  case True
  with assms show ?thesis by (simp add: double_of_nat_def)
next
  case False
  define e where "e = bit_length a - 53"
  define q :: nat where "q = 2 ^ e"
  have "(0::nat) < 2 ^ k"
    by simp
  with assms have a0: "a \<noteq> 0"
    by linarith
  have q_pos: "0 < q"
    by (simp add: q_def)
  have floor: "2 ^ k \<le> (a div q) * q"
  proof (cases "e \<le> k")
    case True
    then have "(2::nat) ^ k = 2 ^ (k - e) * q"
      by (simp add: q_def flip: power_add)
    with assms have "2 ^ (k - e) * q \<le> a" by simp
    then have "2 ^ (k - e) \<le> a div q"
      using q_pos by (simp add: less_eq_div_iff_mult_less_eq)
    then have "2 ^ (k - e) * q \<le> (a div q) * q"
      by (rule mult_le_mono1)
    with \<open>2 ^ k = 2 ^ (k - e) * q\<close> show ?thesis by simp
  next
    case small: False
    have "2 * q = 2 ^ Suc e" by (simp add: q_def)
    also have "\<dots> \<le> 2 ^ bit_length a"
      using False by (intro power_increasing) (simp_all add: e_def)
    also have "\<dots> \<le> 2 * a" by (rule power_bit_length_le [OF a0])
    finally have "q \<le> a" by simp
    then have "1 \<le> a div q"
      using q_pos by (simp add: less_eq_div_iff_mult_less_eq)
    then have "1 * q \<le> (a div q) * q"
      by (rule mult_le_mono1)
    then have upper: "q \<le> (a div q) * q"
      by (simp only: mult_1)
    have "(2::nat) ^ k \<le> q"
      using small by (simp add: q_def power_increasing)
    then show ?thesis
      using upper by (rule order_trans)
  qed
  have "(a div q) * q \<le> double_of_nat a"
    using False by (simp add: double_of_nat_def Let_def e_def q_def)
  with floor show ?thesis by simp
qed

lemma to_double_exact: "\<bar>x\<bar> < 2 ^ 53 \<Longrightarrow> to_double x = x"
proof -
  assume a: "\<bar>x\<bar> < 2 ^ 53"
  have nn: "nat y < 2 ^ 53" if "0 \<le> y" "y < 2 ^ 53" for y :: int
  proof -
    from that have "int (nat y) < int (2 ^ 53)" by simp
    then show ?thesis by (simp only: of_nat_less_iff)
  qed
  show ?thesis
  proof (cases "x < 0")
    case True
    with a have "nat (- x) < 2 ^ 53" by (intro nn) simp_all
    with True show ?thesis by (simp add: to_double_def double_of_nat_exact)
  next
    case False
    with a have "nat x < 2 ^ 53" by (intro nn) simp_all
    with False show ?thesis by (simp add: to_double_def double_of_nat_exact)
  qed
qed

lemma to_double_lower:
  assumes "2 ^ k \<le> x"
  shows "2 ^ k \<le> to_double x"
proof -
  have x: "0 \<le> x"
    using assms by (rule order_trans [rotated]) simp
  have "int (2 ^ k) \<le> int (nat x)"
    using assms x by simp
  then have "2 ^ k \<le> nat x"
    by (simp only: of_nat_le_iff)
  then have "2 ^ k \<le> double_of_nat (nat x)"
    by (rule double_of_nat_lower)
  then have "int (2 ^ k) \<le> int (double_of_nat (nat x))"
    by (simp only: of_nat_le_iff)
  with x show ?thesis
    by (simp add: to_double_def)
qed

text \<open>The offset \<open>(page - 1) * limit\<close> as the code computes it: exact below \<open>2 ^ 53\<close>, and
  never below \<open>2 ^ 53\<close> when the exact product is not.\<close>

lemma js_offset_exact:
  assumes "1 \<le> n_page" and "0 < n_limit" and "(n_page - 1) * n_limit < 2 ^ 53"
  shows "js_times (js_minus n_page 1) n_limit = (n_page - 1) * n_limit"
proof -
  have "n_page - 1 \<le> (n_page - 1) * n_limit"
    using assms(1,2) by (simp add: mult_le_cancel_left1)
  with assms have "\<bar>n_page - 1\<bar> < 2 ^ 53" by simp
  then have "js_minus n_page 1 = n_page - 1"
    by (simp add: js_minus_def to_double_exact)
  moreover have "\<bar>(n_page - 1) * n_limit\<bar> < 2 ^ 53"
    using assms by (simp add: abs_mult)
  ultimately show ?thesis
    by (simp add: js_times_def to_double_exact)
qed

lemma js_offset_large:
  assumes "1 \<le> n_page" and "0 < n_limit" and "2 ^ 53 \<le> (n_page - 1) * n_limit"
  shows "2 ^ 53 \<le> js_times (js_minus n_page 1) n_limit"
proof -
  have "2 ^ 53 \<le> js_minus n_page 1 * n_limit"
  proof (cases "n_page - 1 < 2 ^ 53")
    case True
    with assms(1) have "js_minus n_page 1 = n_page - 1"
      by (simp add: js_minus_def to_double_exact)
    with assms(3) show ?thesis by simp
  next
    case False
    then have big: "2 ^ 53 \<le> js_minus n_page 1"
      unfolding js_minus_def by (intro to_double_lower) simp
    with assms(2) have "js_minus n_page 1 * 1 \<le> js_minus n_page 1 * n_limit"
      by (intro mult_left_mono) simp_all
    then have "js_minus n_page 1 \<le> js_minus n_page 1 * n_limit"
      by (simp only: mult_1_right)
    with big show ?thesis
      by (rule order_trans)
  qed
  then show ?thesis
    unfolding js_times_def by (rule to_double_lower)
qed

section \<open>Pagination\<close>

lemma Math_ceil_div_ceiling:
  "b \<noteq> 0 \<Longrightarrow> Math_ceil_div a b = Finite \<lceil>real_of_int a / real_of_int b\<rceil>"
  by (simp add: Math_ceil_div_def ceiling_divide_eq_div)

lemma concat_slices: "concat (map (\<lambda>k. take m (drop (k * m) xs)) [0..<K]) = take (K * m) xs"
proof (induction K)
  case 0
  then show ?case by simp
next
  case (Suc K)
  have "take (K * m) xs @ take m (drop (K * m) xs) = take (K * m + m) xs"
    by (simp add: take_add)
  with Suc show ?case by (simp add: add.commute)
qed

lemma upto_as_upt: "[1..int K] = map (\<lambda>k. int k + 1) [0..<K]"
proof (induction K)
  case 0
  then show ?case by simp
next
  case (Suc K)
  have "[1..int (Suc K)] = [1..int K] @ [int K + 1]"
    using upto_rec2 [of 1 "int K + 1"] by (simp add: add.commute)
  with Suc show ?case by simp
qed

lemma page_count_covers:
  assumes "0 < b"
  shows "int n \<le> \<lceil>real n / real_of_int b\<rceil> * b" and "0 \<le> \<lceil>real n / real_of_int b\<rceil>"
proof -
  have b: "0 < real_of_int b"
    using assms by simp
  have "real n / real_of_int b \<le> real_of_int \<lceil>real n / real_of_int b\<rceil>"
    by (rule le_of_int_ceiling)
  then have "real n \<le> real_of_int \<lceil>real n / real_of_int b\<rceil> * real_of_int b"
    by (rule pos_divide_le_eq [OF b, THEN iffD1])
  then have "real_of_int (int n) \<le> real_of_int (\<lceil>real n / real_of_int b\<rceil> * b)"
    by simp
  then show "int n \<le> \<lceil>real n / real_of_int b\<rceil> * b"
    by (simp only: of_int_le_iff)
  have "0 \<le> real n / real_of_int b"
    using b by (intro divide_nonneg_pos) simp_all
  then show "0 \<le> \<lceil>real n / real_of_int b\<rceil>"
    using zero_le_ceiling [of "real n / real_of_int b"] by linarith
qed

lemma page_offset_below:
  assumes "0 < b" and "k \<le> \<lceil>real n / real_of_int b\<rceil>"
  shows "(k - 1) * b < int n"
proof -
  have "k - 1 < \<lceil>real n / real_of_int b\<rceil>"
    using assms(2) by simp
  then have "real_of_int (k - 1) < real n / real_of_int b"
    by (simp only: less_ceiling_iff)
  moreover have b: "0 < real_of_int b"
    using assms(1) by simp
  ultimately have "real_of_int (k - 1) * real_of_int b < real n"
    by (simp only: pos_less_divide_eq)
  then have "real_of_int ((k - 1) * b) < real_of_int (int n)"
    by simp
  then show ?thesis
    by (simp only: of_int_less_iff)
qed

lemma slices_concat:
  assumes "0 < b"
  shows "concat (map (\<lambda>k. take (nat b) (drop (nat ((k - 1) * b)) xs))
                  [1..\<lceil>real (length xs) / real_of_int b\<rceil>]) = xs"
proof -
  let ?P = "\<lceil>real (length xs) / real_of_int b\<rceil>"
  let ?m = "nat b"
  have P: "int (length xs) \<le> ?P * b" "0 \<le> ?P"
    using page_count_covers [OF assms, of "length xs"] by simp_all
  have slice: "nat (int k * b) = k * ?m" for k
    by (simp add: nat_mult_distrib)
  have "[1..?P] = map (\<lambda>k. int k + 1) [0..<nat ?P]"
    using upto_as_upt [of "nat ?P"] P(2) by simp
  then have "concat (map (\<lambda>k. take ?m (drop (nat ((k - 1) * b)) xs)) [1..?P])
      = concat (map (\<lambda>k. take ?m (drop (k * ?m) xs)) [0..<nat ?P])"
    by (simp add: comp_def slice)
  also have "\<dots> = take (nat ?P * ?m) xs"
    by (rule concat_slices)
  also have "\<dots> = xs"
  proof -
    have "nat ?P * ?m = nat (?P * b)"
      using P(2) by (simp add: nat_mult_distrib)
    with P(1) have "length xs \<le> nat ?P * ?m"
      by simp
    then show ?thesis by simp
  qed
  finally show ?thesis .
qed

lemma slice_beyond:
  assumes "0 < b" and "\<lceil>real (length xs) / real_of_int b\<rceil> < k"
  shows "take (nat b) (drop (nat ((k - 1) * b)) xs) = []"
proof -
  let ?P = "\<lceil>real (length xs) / real_of_int b\<rceil>"
  have P: "int (length xs) \<le> ?P * b"
    using page_count_covers(1) [OF assms(1)] .
  have "?P \<le> k - 1"
    using assms(2) by simp
  then have "?P * b \<le> (k - 1) * b"
    using assms(1) by (intro mult_right_mono) simp_all
  with P have "length xs \<le> nat ((k - 1) * b)"
    by linarith
  then show ?thesis
    by simp
qed

text \<open>A page whose offset the engine accepts, in a store whose count JavaScript holds
  exactly.\<close>

lemma getPaginatedNotes_page:
  assumes "0 < n_limit" and "n_limit < 2 ^ 63"
    and "length (notes_rows (db_index p)) < 2 ^ 53"
    and "1 \<le> n_page" and "js_times (js_minus n_page 1) n_limit < 2 ^ 63"
  shows "fst (getPaginatedNotes n_page n_limit p)
           = Inr \<lparr>data = take (nat n_limit) (drop (nat ((n_page - 1) * n_limit))
                            (orderBy_desc createdAt (notes_rows (db_index p)))),
                  pagination =
                    \<lparr>page = n_page, limit = n_limit,
                     total = int (length (notes_rows (db_index p))),
                     pages = Finite \<lceil>real (length (notes_rows (db_index p)))
                                      / real_of_int n_limit\<rceil>\<rparr>\<rparr>"
proof -
  let ?rows = "notes_rows (db_index p)"
  let ?all = "orderBy_desc createdAt ?rows"
  let ?js = "js_times (js_minus n_page 1) n_limit"
  let ?exact = "(n_page - 1) * n_limit"
  have N: "int (length ?rows) < 2 ^ 53"
  proof -
    from assms(3) have "int (length ?rows) < int (2 ^ 53)"
      by (simp only: of_nat_less_iff)
    then show ?thesis by simp
  qed
  have drop_eq: "drop (nat ?js) ?all = drop (nat ?exact) ?all" and js0: "0 \<le> ?js"
  proof -
    show "drop (nat ?js) ?all = drop (nat ?exact) ?all"
    proof (cases "?exact < 2 ^ 53")
      case True
      with assms(1,4) show ?thesis by (simp add: js_offset_exact)
    next
      case False
      then have e: "2 ^ 53 \<le> ?exact" by simp
      with assms(1,4) have "2 ^ 53 \<le> ?js" by (intro js_offset_large)
      with e N have "length ?all \<le> nat ?js" "length ?all \<le> nat ?exact"
        by simp_all
      then show ?thesis by simp
    qed
    show "0 \<le> ?js"
    proof (cases "?exact < 2 ^ 53")
      case True
      with assms(1,4) have "?js = ?exact" by (simp add: js_offset_exact)
      with assms(1,4) show ?thesis by simp
    next
      case False
      then have "2 ^ 53 \<le> ?exact" by simp
      with assms(1,4) have "2 ^ 53 \<le> ?js" by (intro js_offset_large)
      then show ?thesis by simp
    qed
  qed
  have page_rows: "limit_offset n_limit ?js ?all = Inr (take (nat n_limit) (drop (nat ?exact) ?all))"
    using assms(1,2,5) js0 by (simp add: limit_offset_def lossless_int64_def drop_eq)
  have count: "to_double (int (length ?rows)) = int (length ?rows)"
    using N by (intro to_double_exact) simp
  have "Math_ceil_div (int (length ?rows)) n_limit
      = Finite \<lceil>real (length ?rows) / real_of_int n_limit\<rceil>"
    using assms(1) Math_ceil_div_ceiling [of n_limit "int (length ?rows)"] by simp
  then show ?thesis
    by (simp add: getPaginatedNotes_def Let_def page_rows count)
qed

lemma getPaginatedNotes_mismatch:
  assumes "0 \<le> n_limit" and "2 ^ 63 \<le> n_limit \<or> 2 ^ 63 \<le> js_times (js_minus n_page 1) n_limit"
  shows "fst (getPaginatedNotes n_page n_limit p) = Inl datatype_mismatch"
  using assms by (auto simp: getPaginatedNotes_def limit_offset_def lossless_int64_def Let_def)

lemma first_pages_accepted:
  assumes "0 < n_limit" and "1 \<le> k" and "N < 2 ^ 53"
    and "k \<le> \<lceil>real N / real_of_int n_limit\<rceil>"
  shows "js_times (js_minus k 1) n_limit < 2 ^ 63"
proof -
  have "(k - 1) * n_limit < int N"
    using assms(1,4) by (rule page_offset_below)
  moreover have "int N < 2 ^ 53"
  proof -
    from assms(3) have "int N < int (2 ^ 53)"
      by (simp only: of_nat_less_iff)
    then show ?thesis by simp
  qed
  ultimately have small: "(k - 1) * n_limit < 2 ^ 53"
    by simp
  with assms(1,2) have "js_times (js_minus k 1) n_limit = (k - 1) * n_limit"
    by (intro js_offset_exact)
  with small show ?thesis
    by simp
qed




section \<open>Integrity is an invariant\<close>

text \<open>Both connections start with empty tables, and every statement of the engine keeps
  identifiers and usernames unique and every note attached to a stored user.\<close>

lemma fold_max_ge: "s \<le> fold max ids (s::int)"
  by (induction ids arbitrary: s) (auto intro: order_trans [OF max.cobounded2])

lemma fold_max_upper: "x \<in> set ids \<Longrightarrow> x \<le> fold max ids (s::int)"
proof (induction ids arbitrary: s)
  case Nil
  then show ?case by simp
next
  case (Cons a ids)
  show ?case
  proof (cases "x = a")
    case True
    have "a \<le> max a s" by simp
    also have "\<dots> \<le> fold max ids (max a s)" by (rule fold_max_ge)
    finally show ?thesis using True by simp
  next
    case False
    with Cons show ?thesis by simp
  qed
qed

lemma autoincrement_fresh: "autoincrement seq ids \<notin> set ids"
proof
  assume "autoincrement seq ids \<in> set ids"
  then have "autoincrement seq ids \<le> fold max ids seq" by (rule fold_max_upper)
  then show False by (simp add: autoincrement_def)
qed

lemma integrity_new_Database: "integrity new_Database"
  by (simp add: integrity_def new_Database_def)

lemma integrity_insert_users:
  assumes "integrity d"
  shows "integrity (snd (insert_users v d))"
  using assms autoincrement_fresh [of "users_seq d" "map users_id (users_rows d)"]
  by (auto simp: integrity_def insert_users_def Let_def list_all_iff)

lemma integrity_insert_notes:
  assumes "integrity d"
  shows "integrity (snd (insert_notes v t d))"
  using assms autoincrement_fresh [of "notes_seq d" "map notes_id (notes_rows d)"]
  by (auto simp: integrity_def insert_notes_def Let_def list_all_iff intro: rev_image_eqI)

lemma users_id_apply_UserPatch [simp]: "users_id (apply_UserPatch patch u) = users_id u"
  by (simp add: apply_UserPatch_def)

lemma notes_id_apply_NotePatch [simp]: "notes_id (apply_NotePatch patch n) = notes_id n"
  by (simp add: apply_NotePatch_def)

lemma map_users_id_update:
  "map users_id (map (\<lambda>u. if users_id u = i then apply_UserPatch patch u else u) rows)
     = map users_id rows"
  by (induction rows) simp_all

lemma map_notes_id_update:
  "map notes_id (map (\<lambda>n. if notes_id n = i then apply_NotePatch patch n else n) rows)
     = map notes_id rows"
  by (induction rows) simp_all

lemma distinct_username_update:
  assumes "distinct (map users_id rows)" and "distinct (map username rows)"
    and "\<forall>u \<in> set rows. users_id u \<noteq> i \<longrightarrow> username u \<noteq> username (apply_UserPatch patch w)"
    and "\<forall>u \<in> set rows. users_id u = i \<longrightarrow> username (apply_UserPatch patch u) = username (apply_UserPatch patch w)"
  shows "distinct (map username (map (\<lambda>u. if users_id u = i then apply_UserPatch patch u else u) rows))"
  using assms
proof (induction rows)
  case Nil
  then show ?case by simp
next
  case (Cons a rows)
  then have IH: "distinct (map username (map (\<lambda>u. if users_id u = i then apply_UserPatch patch u else u) rows))"
    by simp
  show ?case
  proof (cases "users_id a = i")
    case True
    with Cons.prems(1) have "i \<notin> users_id ` set rows" by auto
    then have "\<forall>u \<in> set rows. users_id u \<noteq> i" by blast
    with Cons.prems(3,4) True IH show ?thesis
      by (auto simp: image_iff)
  next
    case False
    with Cons.prems IH show ?thesis
      by (auto simp: image_iff)
  qed
qed


lemma integrity_users_rows:
  assumes "integrity d" and "map users_id rows' = map users_id (users_rows d)"
    and "distinct (map username rows')"
  shows "integrity (d\<lparr>users_rows := rows'\<rparr>)"
  using assms unfolding integrity_def by simp

lemma integrity_notes_rows:
  assumes "integrity d" and "map notes_id rows' = map notes_id (notes_rows d)"
    and "list_all (\<lambda>n. userId n \<in> set (map users_id (users_rows d))) rows'"
  shows "integrity (d\<lparr>notes_rows := rows'\<rparr>)"
  using assms unfolding integrity_def by simp

lemma integrity_update_users_by_id:
  assumes "integrity d"
  shows "integrity (snd (update_users_by_id i patch d))"
proof (cases "\<exists>w \<in> set (users_rows d). users_id w = i")
  case False
  then have "map (\<lambda>u. if users_id u = i then apply_UserPatch patch u else u) (users_rows d)
      = users_rows d"
    by (intro map_idI) auto
  with assms show ?thesis
    by (simp add: update_users_by_id_def Let_def)
next
  case True
  then obtain w where w: "w \<in> set (users_rows d)" "users_id w = i"
    by blast
  let ?rows' = "map (\<lambda>u. if users_id u = i then apply_UserPatch patch u else u) (users_rows d)"
  have ids: "distinct (map users_id (users_rows d))" and names: "distinct (map username (users_rows d))"
    using assms by (simp_all add: integrity_def)
  have only: "u = w" if "u \<in> set (users_rows d)" "users_id u = i" for u
    using that w ids by (metis distinct_map inj_onD)
  have other: "username u \<noteq> username w" if "u \<in> set (users_rows d)" "users_id u \<noteq> i" for u
    using that w names by (metis distinct_map inj_onD)
  show ?thesis
  proof (cases "set_username patch = None \<and> set_password patch = None
      \<or> (\<exists>u \<in> set (users_rows d). users_id u \<noteq> i \<and> Some (username u) = set_username patch)")
    case True
    with assms w show ?thesis
      by (auto simp: update_users_by_id_def Let_def)
  next
    case False
    then have free: "\<forall>u \<in> set (users_rows d). users_id u \<noteq> i \<longrightarrow>
        username u \<noteq> username (apply_UserPatch patch w)"
      using other by (auto simp: apply_UserPatch_def split: option.splits)
    have same: "\<forall>u \<in> set (users_rows d). users_id u = i \<longrightarrow>
        username (apply_UserPatch patch u) = username (apply_UserPatch patch w)"
      using only by auto
    have "distinct (map username ?rows')"
      using ids names free same by (rule distinct_username_update)
    with assms have "integrity (d\<lparr>users_rows := ?rows'\<rparr>)"
      by (intro integrity_users_rows map_users_id_update)
    with False show ?thesis
      by (auto simp: update_users_by_id_def Let_def)
  qed
qed

lemma integrity_update_notes_by_id:
  assumes "integrity d"
  shows "integrity (snd (update_notes_by_id i patch d))"
proof -
  let ?rows' = "map (\<lambda>n. if notes_id n = i then apply_NotePatch patch n else n) (notes_rows d)"
  have fk: "list_all (\<lambda>n. userId n \<in> set (map users_id (users_rows d))) ?rows'"
    if "set_userId patch = None \<or> (\<forall>n \<in> set (notes_rows d). notes_id n \<noteq> i)
        \<or> (\<exists>u \<in> set (users_rows d). Some (users_id u) = set_userId patch)"
    using that assms
    by (auto simp: integrity_def list_all_iff apply_NotePatch_def split: option.splits)
  have "integrity (d\<lparr>notes_rows := ?rows'\<rparr>)"
    if "set_userId patch = None \<or> (\<forall>n \<in> set (notes_rows d). notes_id n \<noteq> i)
        \<or> (\<exists>u \<in> set (users_rows d). Some (users_id u) = set_userId patch)"
    using assms fk [OF that] by (intro integrity_notes_rows map_notes_id_update)
  with assms show ?thesis
    by (auto simp: update_notes_by_id_def Let_def)
qed

lemma integrity_delete_users_by_id:
  assumes "integrity d"
  shows "integrity (snd (delete_users_by_id i d))"
proof -
  have "userId n \<in> users_id ` {u \<in> set (users_rows d). users_id u \<noteq> i}"
    if "n \<in> set (notes_rows d)"
      and "userId n \<notin> users_id ` {u \<in> set (users_rows d). users_id u = i}" for n
  proof -
    from that(1) assms obtain u where u: "u \<in> set (users_rows d)" "users_id u = userId n"
      by (auto simp: integrity_def list_all_iff)
    with that(2) have "users_id u \<noteq> i" by force
    with u show ?thesis by force
  qed
  with assms show ?thesis
    by (simp add: delete_users_by_id_def Let_def integrity_def list_all_iff distinct_map_filter)
qed

lemma integrity_delete_notes_by_id:
  assumes "integrity d"
  shows "integrity (snd (delete_notes_by_id i d))"
  using assms by (simp add: delete_notes_by_id_def integrity_def list_all_iff distinct_map_filter)

lemma integrity_delete_notes_by_userId:
  assumes "integrity d"
  shows "integrity (snd (delete_notes_by_userId i d))"
  using assms by (simp add: delete_notes_by_userId_def integrity_def list_all_iff distinct_map_filter)

lemma db_index_on_index: "db_index (snd (on_index stmt p)) = snd (stmt (db_index p))"
  by (simp add: on_index_def split: prod.split)

lemma db_storage_on_index: "db_storage (snd (on_index stmt p)) = db_storage p"
  by (simp add: on_index_def split: prod.split)

lemma db_storage_on_storage: "db_storage (snd (on_storage stmt p)) = snd (stmt (db_storage p))"
  by (simp add: on_storage_def split: prod.split)

lemma db_index_on_storage: "db_index (snd (on_storage stmt p)) = db_index p"
  by (simp add: on_storage_def split: prod.split)

lemma snd_returning: "snd (returning f out) = snd out"
  by (simp add: returning_def split: prod.split sum.split)

lemma snd_deleteUser: "snd (deleteUser i p) = snd (on_index (delete_users_by_id i) p)"
  by (simp add: deleteUser_def split: prod.split)

lemma snd_deleteNote: "snd (deleteNote i p) = snd (on_index (delete_notes_by_id i) p)"
  by (simp add: deleteNote_def split: prod.split)

lemma integrity_preserved:
  assumes "integrity (db_index p)"
  shows "integrity (db_index (snd (createUser v p)))"
    and "integrity (db_index (snd (updateUser i up p)))"
    and "integrity (db_index (snd (deleteUser i p)))"
    and "integrity (db_index (snd (createNote w t p)))"
    and "integrity (db_index (snd (updateNote i np p)))"
    and "integrity (db_index (snd (deleteNote i p)))"
    and "integrity (db_index (snd (deleteUserNotes i p)))"
  using assms
  by (simp_all add: createUser_def updateUser_def snd_deleteUser createNote_def updateNote_def
      snd_deleteNote deleteUserNotes_def snd_returning db_index_on_index
      integrity_insert_users integrity_update_users_by_id integrity_delete_users_by_id
      integrity_insert_notes integrity_update_notes_by_id integrity_delete_notes_by_id
      integrity_delete_notes_by_userId split: prod.split)

lemma integrity_process_start:
  "integrity (db_index process_start)" "integrity (db_storage process_start)"
  by (simp_all add: process_start_def integrity_new_Database)

section \<open>One connection for the data-access layer, another for DrizzleStorage\<close>

lemma user_visibleI:
  assumes "integrity (db_index p)" and "u \<in> set (users_rows (db_index p))"
  shows "user_visible u p"
proof -
  have "filter (\<lambda>w. users_id w = users_id u) (users_rows (db_index p)) = [u]"
    using assms by (intro filter_key_distinct) (simp_all add: integrity_def)
  moreover have "filter (\<lambda>w. username w = username u) (users_rows (db_index p)) = [u]"
    using assms by (intro filter_key_distinct) (simp_all add: integrity_def)
  ultimately show ?thesis
    using assms(2)
    by (simp add: user_visible_def getUserById_def getUserByUsername_def getAllUsers_def
        getUserWithNotes_def first_or_null_def Let_def)
qed

lemma note_visibleI:
  assumes "integrity (db_index p)" and "n \<in> set (notes_rows (db_index p))"
  shows "note_visible n p"
proof -
  let ?d = "db_index p"
  have by_id: "filter (\<lambda>m. notes_id m = notes_id n) (notes_rows ?d) = [n]"
    using assms by (intro filter_key_distinct) (simp_all add: integrity_def)
  from assms obtain u where u: "u \<in> set (users_rows ?d)" "users_id u = userId n"
    by (auto simp: integrity_def list_all_iff)
  have owner: "filter (\<lambda>w. users_id w = userId n) (users_rows ?d) = [u]"
    using assms(1) u filter_key_distinct [of users_id "users_rows ?d" u]
    by (simp add: integrity_def)
  have pages: "concat (map (\<lambda>k. case fst (getPaginatedNotes k 10 p) of
                                   Inl e \<Rightarrow> [] | Inr r \<Rightarrow> data r)
        [1..number_of_pages (length (fst (getAllNotes p))) 10])
      = orderBy_desc createdAt (notes_rows ?d)"
    if small: "length (fst (getAllNotes p)) < 2 ^ 53"
  proof -
    let ?all = "orderBy_desc createdAt (notes_rows ?d)"
    let ?P = "\<lceil>real (length (notes_rows ?d)) / real_of_int 10\<rceil>"
    have N: "length (notes_rows ?d) < 2 ^ 53"
      using small by (simp add: getAllNotes_def)
    have "(case fst (getPaginatedNotes k 10 p) of Inl e \<Rightarrow> [] | Inr r \<Rightarrow> data r)
        = take (nat 10) (drop (nat ((k - 1) * 10)) ?all)" if "k \<in> set [1..?P]" for k
    proof -
      from that have k: "1 \<le> k" "k \<le> ?P" by simp_all
      have "js_times (js_minus k 1) 10 < 2 ^ 63"
        using k N by (intro first_pages_accepted [of _ _ "length (notes_rows ?d)"]) simp_all
      with k(1) N show ?thesis
        by (subst getPaginatedNotes_page) simp_all
    qed
    then have "concat (map (\<lambda>k. case fst (getPaginatedNotes k 10 p) of
                                   Inl e \<Rightarrow> [] | Inr r \<Rightarrow> data r) [1..?P])
        = concat (map (\<lambda>k. take (nat 10) (drop (nat ((k - 1) * 10)) ?all)) [1..?P])"
      by (intro arg_cong [where f = concat] map_cong refl)
    also have "\<dots> = ?all"
      using slices_concat [of 10 ?all] by simp
    finally show ?thesis
      by (simp add: number_of_pages_def getAllNotes_def)
  qed
  have "(n, u) \<in> set (innerJoin_notes_users ?d)"
    using assms(2) u by (simp add: innerJoin_eq_filter_product)
  then have joined: "select_note_user (n, u) \<in> set (fst (getNotesWithUsers p))"
    by (simp add: getNotesWithUsers_def)
  have "fst (getNoteById (notes_id n) p) = Some n"
    by (simp add: getNoteById_def by_id first_or_null_def)
  moreover have "n \<in> set (fst (getAllNotes p))"
    using assms(2) by (simp add: getAllNotes_def)
  moreover have "n \<in> set (fst (getNotesByUserId (userId n) p))"
    using assms(2) by (simp add: getNotesByUserId_def)
  moreover have "case fst (searchNotes [] False p) of Inl e \<Rightarrow> False | Inr rows \<Rightarrow> n \<in> set rows"
    using assms(2) by (simp add: searchNotes_def)
  moreover have "length (fst (getAllNotes p)) < 2 ^ 53 \<longrightarrow>
      n \<in> set (concat (map (\<lambda>k. case fst (getPaginatedNotes k 10 p) of
                                     Inl e \<Rightarrow> [] | Inr r \<Rightarrow> data r)
        [1..number_of_pages (length (fst (getAllNotes p))) 10]))"
    using assms(2) pages by simp
  moreover have "\<exists>u \<in> set (fst (getAllUsers p)).
      select_note_user (n, u) \<in> set (fst (getNotesWithUsers p))"
    using joined u(1) by (auto simp: getAllUsers_def)
  moreover have "case fst (getUserWithNotes (userId n) p) of
      None \<Rightarrow> False | Some r \<Rightarrow> n \<in> set (userNotes r)"
    using assms(2) by (simp add: getUserWithNotes_def owner Let_def)
  ultimately show ?thesis
    unfolding note_visible_def by blast
qed

lemma user_visible_DrizzleStorageI:
  assumes "integrity (db_storage p)" and "u \<in> set (users_rows (db_storage p))"
  shows "user_visible_DrizzleStorage u p"
proof -
  have "filter (\<lambda>w. users_id w = users_id u) (users_rows (db_storage p)) = [u]"
    using assms by (intro filter_key_distinct) (simp_all add: integrity_def)
  moreover have "filter (\<lambda>w. username w = username u) (users_rows (db_storage p)) = [u]"
    using assms by (intro filter_key_distinct) (simp_all add: integrity_def)
  ultimately show ?thesis
    using assms(2)
    by (simp add: user_visible_DrizzleStorage_def DrizzleStorage_getUserById_def
        DrizzleStorage_getUserByUsername_def DrizzleStorage_getAllUsers_def index0_def)
qed

lemma note_visible_DrizzleStorageI:
  assumes "integrity (db_storage p)" and "n \<in> set (notes_rows (db_storage p))"
  shows "note_visible_DrizzleStorage n p"
proof -
  have "filter (\<lambda>m. notes_id m = notes_id n) (notes_rows (db_storage p)) = [n]"
    using assms by (intro filter_key_distinct) (simp_all add: integrity_def)
  then show ?thesis
    using assms(2)
    by (simp add: note_visible_DrizzleStorage_def DrizzleStorage_getNoteById_def
        DrizzleStorage_getAllNotes_def DrizzleStorage_getNotesByUserId_def index0_def)
qed

lemma first_or_null_in_set: "first_or_null rows = Some r \<Longrightarrow> r \<in> set rows"
  by (cases rows) (simp_all add: first_or_null_def)

lemma index0_in_set: "index0 rows = Some r \<Longrightarrow> r \<in> set rows"
  by (cases rows) (simp_all add: index0_def)

lemma insert_users_returned:
  "insert_users v d = (Inr rows, d') \<Longrightarrow> set rows \<subseteq> set (users_rows d')"
  by (auto simp: insert_users_def Let_def split: if_splits)

lemma insert_notes_returned:
  "insert_notes v t d = (Inr rows, d') \<Longrightarrow> set rows \<subseteq> set (notes_rows d')"
  by (auto simp: insert_notes_def Let_def split: if_splits)

lemma update_users_returned:
  "update_users_by_id i patch d = (Inr rows, d') \<Longrightarrow> set rows \<subseteq> set (users_rows d')"
  by (auto simp: update_users_by_id_def Let_def split: if_splits)

lemma update_notes_returned:
  "update_notes_by_id i patch d = (Inr rows, d') \<Longrightarrow> set rows \<subseteq> set (notes_rows d')"
  by (auto simp: update_notes_by_id_def Let_def split: if_splits)

lemma returning_on_index_Some:
  assumes "returning f (on_index stmt p) = (Inr (Some r), p')"
    and "\<And>rows d'. stmt (db_index p) = (Inr rows, d') \<Longrightarrow> set rows \<subseteq> set (tbl d')"
    and "\<And>rows. f rows = Some r \<Longrightarrow> r \<in> set rows"
  shows "r \<in> set (tbl (db_index p'))"
proof (cases "stmt (db_index p)")
  case (Pair res d')
  with assms(1) obtain rows where rows: "res = Inr rows" "f rows = Some r" "p' = p\<lparr>db_index := d'\<rparr>"
    by (auto simp: returning_def on_index_def split: sum.splits)
  from assms(2) [of rows d'] Pair rows(1) have "set rows \<subseteq> set (tbl d')"
    by simp
  with assms(3) [OF rows(2)] rows(3) show ?thesis
    by auto
qed

lemma returning_on_storage_Some:
  assumes "returning f (on_storage stmt p) = (Inr (Some r), p')"
    and "\<And>rows d'. stmt (db_storage p) = (Inr rows, d') \<Longrightarrow> set rows \<subseteq> set (tbl d')"
    and "\<And>rows. f rows = Some r \<Longrightarrow> r \<in> set rows"
  shows "r \<in> set (tbl (db_storage p'))"
proof (cases "stmt (db_storage p)")
  case (Pair res d')
  with assms(1) obtain rows where rows: "res = Inr rows" "f rows = Some r" "p' = p\<lparr>db_storage := d'\<rparr>"
    by (auto simp: returning_def on_storage_def split: sum.splits)
  from assms(2) [of rows d'] Pair rows(1) have "set rows \<subseteq> set (tbl d')"
    by simp
  with assms(3) [OF rows(2)] rows(3) show ?thesis
    by auto
qed


lemma dal_writes_visible:
  assumes "integrity (db_index p)"
  shows "createUser v p = (Inr (Some u1), p1) \<Longrightarrow> user_visible u1 p1"
    and "updateUser i2 up p = (Inr (Some u2), p2) \<Longrightarrow> user_visible u2 p2"
    and "createNote w t p = (Inr (Some n3), p3) \<Longrightarrow> note_visible n3 p3"
    and "updateNote i4 np p = (Inr (Some n4), p4) \<Longrightarrow> note_visible n4 p4"
proof -
  assume a: "createUser v p = (Inr (Some u1), p1)"
  then have "p1 = snd (createUser v p)" by simp
  then have "integrity (db_index p1)"
    using assms integrity_preserved(1) by simp
  moreover have "u1 \<in> set (users_rows (db_index p1))"
    using a unfolding createUser_def
    by (rule returning_on_index_Some) (auto dest: insert_users_returned index0_in_set)
  ultimately show "user_visible u1 p1" by (rule user_visibleI)
next
  assume a: "updateUser i2 up p = (Inr (Some u2), p2)"
  then have "p2 = snd (updateUser i2 up p)" by simp
  then have "integrity (db_index p2)"
    using assms integrity_preserved(2) by simp
  moreover have "u2 \<in> set (users_rows (db_index p2))"
    using a unfolding updateUser_def
    by (rule returning_on_index_Some) (auto dest: update_users_returned first_or_null_in_set)
  ultimately show "user_visible u2 p2" by (rule user_visibleI)
next
  assume a: "createNote w t p = (Inr (Some n3), p3)"
  then have "p3 = snd (createNote w t p)" by simp
  then have "integrity (db_index p3)"
    using assms integrity_preserved(4) by simp
  moreover have "n3 \<in> set (notes_rows (db_index p3))"
    using a unfolding createNote_def
    by (rule returning_on_index_Some) (auto dest: insert_notes_returned index0_in_set)
  ultimately show "note_visible n3 p3" by (rule note_visibleI)
next
  assume a: "updateNote i4 np p = (Inr (Some n4), p4)"
  then have "p4 = snd (updateNote i4 np p)" by simp
  then have "integrity (db_index p4)"
    using assms integrity_preserved(5) by simp
  moreover have "n4 \<in> set (notes_rows (db_index p4))"
    using a unfolding updateNote_def
    by (rule returning_on_index_Some) (auto dest: update_notes_returned first_or_null_in_set)
  ultimately show "note_visible n4 p4" by (rule note_visibleI)
qed

lemma deleteUser_gone:
  assumes "integrity (db_index p)" and "deleteUser i p = (Some u, p')"
  shows "fst (getUserById (users_id u) p') = None"
    and "fst (getUserByUsername (username u) p') = None"
    and "u \<notin> set (fst (getAllUsers p'))"
    and "fst (getUserWithNotes (users_id u) p') = None"
    and "fst (getNotesByUserId (users_id u) p') = []"
proof -
  let ?rows = "users_rows (db_index p)"
  from assms(2) have u: "u \<in> set ?rows" "users_id u = i"
    and p': "users_rows (db_index p') = filter (\<lambda>w. users_id w \<noteq> i) ?rows"
      "notes_rows (db_index p')
         = filter (\<lambda>n. userId n \<notin> users_id ` set (filter (\<lambda>w. users_id w = i) ?rows))
             (notes_rows (db_index p))"
    by (auto simp: deleteUser_def on_index_def delete_users_by_id_def Let_def
        dest!: first_or_null_in_set)
  have names: "distinct (map username ?rows)"
    using assms(1) by (simp add: integrity_def)
  have "w = u" if "w \<in> set ?rows" "username w = username u" for w
    using that u(1) names by (metis distinct_map inj_onD)
  then have no_name: "filter (\<lambda>w. username w = username u) (filter (\<lambda>w. users_id w \<noteq> i) ?rows) = []"
    using u(2) by (auto simp: filter_empty_conv)
  have no_id: "filter (\<lambda>w. users_id w = i) (filter (\<lambda>w. users_id w \<noteq> i) ?rows) = []"
    by (auto simp: filter_empty_conv)
  have "i \<in> users_id ` set (filter (\<lambda>w. users_id w = i) ?rows)"
    using u by force
  then have no_notes: "filter (\<lambda>n. userId n = i) (notes_rows (db_index p')) = []"
    by (auto simp: p'(2) filter_empty_conv)
  show "fst (getUserById (users_id u) p') = None"
    using no_id by (simp add: getUserById_def p'(1) u(2))
  show "fst (getUserByUsername (username u) p') = None"
    using no_name by (simp add: getUserByUsername_def p'(1))
  show "u \<notin> set (fst (getAllUsers p'))"
    by (simp add: getAllUsers_def p'(1) u(2))
  show "fst (getUserWithNotes (users_id u) p') = None"
    using no_id by (simp add: getUserWithNotes_def p'(1) u(2))
  show "fst (getNotesByUserId (users_id u) p') = []"
    using no_notes by (simp add: getNotesByUserId_def u(2))
qed

lemma deleteNote_gone:
  assumes "deleteNote i p = (Some n, p')"
  shows "fst (getNoteById (notes_id n) p') = None"
    and "n \<notin> set (fst (getAllNotes p'))"
    and "case fst (searchNotes [] False p') of Inl e \<Rightarrow> False | Inr rows \<Rightarrow> n \<notin> set rows"
proof -
  from assms have n: "notes_id n = i"
    and p': "notes_rows (db_index p') = filter (\<lambda>m. notes_id m \<noteq> i) (notes_rows (db_index p))"
    by (auto simp: deleteNote_def on_index_def delete_notes_by_id_def dest!: first_or_null_in_set)
  have "filter (\<lambda>m. notes_id m = i) (filter (\<lambda>m. notes_id m \<noteq> i) (notes_rows (db_index p))) = []"
    by (auto simp: filter_empty_conv)
  then show "fst (getNoteById (notes_id n) p') = None"
    by (simp add: getNoteById_def p' n)
  show "n \<notin> set (fst (getAllNotes p'))"
    by (simp add: getAllNotes_def p' n)
  show "case fst (searchNotes [] False p') of Inl e \<Rightarrow> False | Inr rows \<Rightarrow> n \<notin> set rows"
    by (simp add: searchNotes_def p' n)
qed

lemma DrizzleStorage_create_visible:
  assumes "integrity (db_storage p)"
  shows "DrizzleStorage_createUser v p = (Inr (Some u), p')
           \<Longrightarrow> user_visible_DrizzleStorage u p' \<and> db_index p' = db_index p"
    and "DrizzleStorage_createNote w t p = (Inr (Some n), p'')
           \<Longrightarrow> note_visible_DrizzleStorage n p'' \<and> db_index p'' = db_index p"
proof -
  assume a: "DrizzleStorage_createUser v p = (Inr (Some u), p')"
  then have p': "p' = snd (returning index0 (on_storage (insert_users v) p))"
    by (simp add: DrizzleStorage_createUser_def)
  then have "integrity (db_storage p')"
    using assms by (simp add: snd_returning db_storage_on_storage integrity_insert_users)
  moreover have "u \<in> set (users_rows (db_storage p'))"
    using a unfolding DrizzleStorage_createUser_def
    by (rule returning_on_storage_Some) (auto dest: insert_users_returned index0_in_set)
  ultimately have "user_visible_DrizzleStorage u p'"
    by (rule user_visible_DrizzleStorageI)
  moreover have "db_index p' = db_index p"
    by (simp add: p' snd_returning db_index_on_storage)
  ultimately show "user_visible_DrizzleStorage u p' \<and> db_index p' = db_index p" ..
next
  assume a: "DrizzleStorage_createNote w t p = (Inr (Some n), p'')"
  then have p': "p'' = snd (returning index0 (on_storage (insert_notes w t) p))"
    by (simp add: DrizzleStorage_createNote_def)
  then have "integrity (db_storage p'')"
    using assms by (simp add: snd_returning db_storage_on_storage integrity_insert_notes)
  moreover have "n \<in> set (notes_rows (db_storage p''))"
    using a unfolding DrizzleStorage_createNote_def
    by (rule returning_on_storage_Some) (auto dest: insert_notes_returned index0_in_set)
  ultimately have "note_visible_DrizzleStorage n p''"
    by (rule note_visible_DrizzleStorageI)
  moreover have "db_index p'' = db_index p"
    by (simp add: p' snd_returning db_index_on_storage)
  ultimately show "note_visible_DrizzleStorage n p'' \<and> db_index p'' = db_index p" ..
qed

lemma reads_depend_on_db_index:
  assumes "db_index q = db_index p"
  shows "fst (getUserById i q) = fst (getUserById i p)
    \<and> fst (getUserByUsername name q) = fst (getUserByUsername name p)
    \<and> fst (getAllUsers q) = fst (getAllUsers p)
    \<and> fst (getNoteById i q) = fst (getNoteById i p)
    \<and> fst (getAllNotes q) = fst (getAllNotes p)
    \<and> fst (getNotesByUserId i q) = fst (getNotesByUserId i p)
    \<and> fst (searchNotes titleQuery importantOnly q) = fst (searchNotes titleQuery importantOnly p)
    \<and> fst (getPaginatedNotes n_page n_limit q) = fst (getPaginatedNotes n_page n_limit p)
    \<and> fst (getNotesWithUsers q) = fst (getNotesWithUsers p)
    \<and> fst (getUserWithNotes i q) = fst (getUserWithNotes i p)"
  using assms
  by (simp add: getUserById_def getUserByUsername_def getAllUsers_def getNoteById_def
      getAllNotes_def getNotesByUserId_def searchNotes_def getPaginatedNotes_def
      getNotesWithUsers_def getUserWithNotes_def Let_def split: list.split sum.split)

text \<open>
  Claim C2, as amended. The data-access operations and the query helpers act on the one
  connection exported by \<^verbatim>\<open>server/db/index.ts\<close>: in any state that satisfies the schema's
  constraints, the row returned by \<open>createUser\<close>, \<open>updateUser\<close>, \<open>createNote\<close> or
  \<open>updateNote\<close> is visible to every read that follows (among them \<open>searchNotes\<close>,
  \<open>getPaginatedNotes\<close> in a store of fewer than \<open>2 ^ 53\<close> notes, \<open>getNotesWithUsers\<close> and
  \<open>getUserWithNotes\<close>), and a row deleted
  by \<open>deleteUser\<close> or \<open>deleteNote\<close> is no longer found. The \<open>DrizzleStorage\<close> methods act on
  the second connection, opened in \<^verbatim>\<open>server/storage.ts\<close>: what they write is visible to the
  \<open>DrizzleStorage\<close> reads and leaves the first connection as it was, and the reads of the
  data-access layer and the query helpers depend on the first connection only.
\<close>

theorem shared_connection:
  assumes "integrity (db_index p)" and "integrity (db_storage p)"
  shows "(createUser v p = (Inr (Some u1), p1) \<longrightarrow> user_visible u1 p1)
    \<and> (updateUser i2 up p = (Inr (Some u2), p2) \<longrightarrow> user_visible u2 p2)
    \<and> (createNote w t p = (Inr (Some n3), p3) \<longrightarrow> note_visible n3 p3)
    \<and> (updateNote i4 np p = (Inr (Some n4), p4) \<longrightarrow> note_visible n4 p4)
    \<and> (deleteUser i5 p = (Some u5, p5) \<longrightarrow>
          fst (getUserById (users_id u5) p5) = None
          \<and> fst (getUserByUsername (username u5) p5) = None
          \<and> u5 \<notin> set (fst (getAllUsers p5))
          \<and> fst (getUserWithNotes (users_id u5) p5) = None
          \<and> fst (getNotesByUserId (users_id u5) p5) = [])
    \<and> (deleteNote i6 p = (Some n6, p6) \<longrightarrow>
          fst (getNoteById (notes_id n6) p6) = None
          \<and> n6 \<notin> set (fst (getAllNotes p6))
          \<and> (case fst (searchNotes [] False p6) of
                Inl e \<Rightarrow> False | Inr rows \<Rightarrow> n6 \<notin> set rows))
    \<and> (DrizzleStorage_createUser v p = (Inr (Some u7), p7) \<longrightarrow>
          user_visible_DrizzleStorage u7 p7 \<and> db_index p7 = db_index p)
    \<and> (DrizzleStorage_createNote w t p = (Inr (Some n8), p8) \<longrightarrow>
          note_visible_DrizzleStorage n8 p8 \<and> db_index p8 = db_index p)
    \<and> (db_index q = db_index p \<longrightarrow>
          fst (getUserById i q) = fst (getUserById i p)
          \<and> fst (getUserByUsername name q) = fst (getUserByUsername name p)
          \<and> fst (getAllUsers q) = fst (getAllUsers p)
          \<and> fst (getNoteById i q) = fst (getNoteById i p)
          \<and> fst (getAllNotes q) = fst (getAllNotes p)
          \<and> fst (getNotesByUserId i q) = fst (getNotesByUserId i p)
          \<and> fst (searchNotes titleQuery importantOnly q)
              = fst (searchNotes titleQuery importantOnly p)
          \<and> fst (getPaginatedNotes n_page n_limit q) = fst (getPaginatedNotes n_page n_limit p)
          \<and> fst (getNotesWithUsers q) = fst (getNotesWithUsers p)
          \<and> fst (getUserWithNotes i q) = fst (getUserWithNotes i p))"
proof (intro conjI impI)
  show "user_visible u1 p1" if "createUser v p = (Inr (Some u1), p1)"
    using that by (rule dal_writes_visible(1) [OF assms(1)])
  show "user_visible u2 p2" if "updateUser i2 up p = (Inr (Some u2), p2)"
    using that by (rule dal_writes_visible(2) [OF assms(1)])
  show "note_visible n3 p3" if "createNote w t p = (Inr (Some n3), p3)"
    using that by (rule dal_writes_visible(3) [OF assms(1)])
  show "note_visible n4 p4" if "updateNote i4 np p = (Inr (Some n4), p4)"
    using that by (rule dal_writes_visible(4) [OF assms(1)])
next
  assume d: "deleteUser i5 p = (Some u5, p5)"
  show "fst (getUserById (users_id u5) p5) = None"
    and "fst (getUserByUsername (username u5) p5) = None"
    and "u5 \<notin> set (fst (getAllUsers p5))"
    and "fst (getUserWithNotes (users_id u5) p5) = None"
    and "fst (getNotesByUserId (users_id u5) p5) = []"
    using deleteUser_gone [OF assms(1) d] by blast+
next
  assume d: "deleteNote i6 p = (Some n6, p6)"
  show "fst (getNoteById (notes_id n6) p6) = None"
    and "n6 \<notin> set (fst (getAllNotes p6))"
    and "case fst (searchNotes [] False p6) of Inl e \<Rightarrow> False | Inr rows \<Rightarrow> n6 \<notin> set rows"
    using deleteNote_gone [OF d] by blast+
next
  assume c: "DrizzleStorage_createUser v p = (Inr (Some u7), p7)"
  show "user_visible_DrizzleStorage u7 p7" and "db_index p7 = db_index p"
    using DrizzleStorage_create_visible(1) [OF assms(2) c] by blast+
next
  assume c: "DrizzleStorage_createNote w t p = (Inr (Some n8), p8)"
  show "note_visible_DrizzleStorage n8 p8" and "db_index p8 = db_index p"
    using DrizzleStorage_create_visible(2) [OF assms(2) c] by blast+
next
  assume e: "db_index q = db_index p"
  show "fst (getUserById i q) = fst (getUserById i p)"
    and "fst (getUserByUsername name q) = fst (getUserByUsername name p)"
    and "fst (getAllUsers q) = fst (getAllUsers p)"
    and "fst (getNoteById i q) = fst (getNoteById i p)"
    and "fst (getAllNotes q) = fst (getAllNotes p)"
    and "fst (getNotesByUserId i q) = fst (getNotesByUserId i p)"
    and "fst (searchNotes titleQuery importantOnly q) = fst (searchNotes titleQuery importantOnly p)"
    and "fst (getPaginatedNotes n_page n_limit q) = fst (getPaginatedNotes n_page n_limit p)"
    and "fst (getNotesWithUsers q) = fst (getNotesWithUsers p)"
    and "fst (getUserWithNotes i q) = fst (getUserWithNotes i p)"
    using reads_depend_on_db_index [OF e] by blast+
qed

theorem shared_connection_witness:
  "integrity (db_index seeded) \<and> integrity (db_storage seeded)
   \<and> fst (createNote new_note 7000 seeded) = Inr (Some note4)
   \<and> note_visible note4 (snd (createNote new_note 7000 seeded))
   \<and> fst (searchNotes [] False (snd (createNote new_note 7000 seeded)))
       = Inr [note4, note2, note3, note1]"
proof -
  have i: "integrity (db_index seeded)" and s: "integrity (db_storage seeded)"
    by (simp_all add: integrity_def seeded_defs)
  have r: "fst (createNote new_note 7000 seeded) = Inr (Some note4)"
    by (simp add: createNote_def returning_def on_index_def insert_notes_def index0_def
        autoincrement_def new_note_def note4_def seeded_defs Let_def)
  then have c: "createNote new_note 7000 seeded
      = (Inr (Some note4), snd (createNote new_note 7000 seeded))"
    by (simp add: prod_eq_iff)
  have v: "note_visible note4 (snd (createNote new_note 7000 seeded))"
    using shared_connection [OF i s, THEN conjunct2, THEN conjunct2, THEN conjunct1,
        rule_format, OF c] .
  have "fst (searchNotes [] False (snd (createNote new_note 7000 seeded)))
       = Inr [note4, note2, note3, note1]"
    by (simp add: createNote_def returning_def on_index_def insert_notes_def index0_def
        autoincrement_def new_note_def note4_def seeded_defs Let_def searchNotes_def
        orderBy_desc_def)
  with i s r v show ?thesis
    by simp
qed

text \<open>
  The claim as first stated, with the \<open>DrizzleStorage\<close> methods included, fails: after
  \<open>DrizzleStorage.createUser\<close> and \<open>DrizzleStorage.createNote\<close> in a fresh process the class
  reads the user and the note back, while the data-access layer and the query helpers find
  no row at all.
\<close>

theorem DrizzleStorage_writes_counterexample:
  "fst (DrizzleStorage_getAllUsers after_storage_writes) = [johndoe]
   \<and> fst (DrizzleStorage_getAllNotes after_storage_writes) = [note1]
   \<and> fst (getAllUsers after_storage_writes) = []
   \<and> fst (getAllNotes after_storage_writes) = []
   \<and> fst (searchNotes [] False after_storage_writes) = Inr []
   \<and> fst (getPaginatedNotes 1 10 after_storage_writes)
       = Inr \<lparr>data = [], pagination = \<lparr>page = 1, limit = 10, total = 0, pages = Finite 0\<rparr>\<rparr>
   \<and> fst (getNotesWithUsers after_storage_writes) = []
   \<and> fst (getUserWithNotes 1 after_storage_writes) = None"
proof -
  have state: "after_storage_writes
      = \<lparr>db_index = new_Database,
         db_storage = \<lparr>users_rows = [johndoe], notes_rows = [note1], users_seq = 1, notes_seq = 1,
                       last_insert_rowid = 1\<rparr>\<rparr>"
    by (simp add: after_storage_writes_def DrizzleStorage_createNote_def
        DrizzleStorage_createUser_def returning_def on_storage_def insert_users_def
        insert_notes_def autoincrement_def process_start_def new_Database_def johndoe_def
        note1_def Let_def)
  show ?thesis
    unfolding state
    by (simp add: DrizzleStorage_getAllUsers_def DrizzleStorage_getAllNotes_def getAllUsers_def
        getAllNotes_def searchNotes_def getPaginatedNotes_def getNotesWithUsers_def
        getUserWithNotes_def new_Database_def orderBy_desc_def limit_offset_def
        lossless_int64_def js_times_def js_minus_def to_double_exact Math_ceil_div_def
        innerJoin_notes_users_def Let_def)
qed

end
